theory Spec2Isabelle
  imports Complex_Main "HOL-Library.Sublist"
begin

section \<open>Numbers\<close>

text \<open>
  The engine computes with JavaScript numbers. Finite values are modelled as reals
  (rounding and overflow are not modelled). The operations of the functions below that
  leave the finite numbers are the divisions by a layout area or a layout diagonal,
  which may be zero: their results, and everything computed from them, are values of
  \<open>jsnum\<close>, with the IEEE rules for infinities and NaN. A zero divisor is taken as
  positive zero, which it is whenever the layout dimensions are not negative. The other
  divisions of the engine are by a constant, by a list length that a guard of the same
  function keeps from 0, or by 1 plus two variances.
\<close>

datatype jsnum = Fin real | PInf | NInf | NaN

fun jadd :: "jsnum \<Rightarrow> jsnum \<Rightarrow> jsnum" where
  "jadd NaN _ = NaN"
| "jadd _ NaN = NaN"
| "jadd (Fin a) (Fin b) = Fin (a + b)"
| "jadd PInf NInf = NaN"
| "jadd NInf PInf = NaN"
| "jadd PInf _ = PInf"
| "jadd _ PInf = PInf"
| "jadd NInf _ = NInf"
| "jadd _ NInf = NInf"

fun jneg :: "jsnum \<Rightarrow> jsnum" where
  "jneg (Fin a) = Fin (- a)"
| "jneg PInf = NInf"
| "jneg NInf = PInf"
| "jneg NaN = NaN"

definition jsub :: "jsnum \<Rightarrow> jsnum \<Rightarrow> jsnum" where
  "jsub a b = jadd a (jneg b)"

text \<open>Multiplication by a finite factor, as in \<open>layoutEfficiency * 30\<close>.\<close>

fun jscale :: "jsnum \<Rightarrow> real \<Rightarrow> jsnum" where
  "jscale (Fin a) k = Fin (a * k)"
| "jscale PInf k = (if k = 0 then NaN else if 0 < k then PInf else NInf)"
| "jscale NInf k = (if k = 0 then NaN else if 0 < k then NInf else PInf)"
| "jscale NaN k = NaN"

text \<open>Division of two finite numbers, \<open>a / b\<close>.\<close>

definition jdiv :: "real \<Rightarrow> real \<Rightarrow> jsnum" where
  "jdiv a b =
     (if b = 0 then (if a = 0 then NaN else if 0 < a then PInf else NInf)
      else Fin (a / b))"

text \<open>Division by a finite divisor, as in \<open>totalScore / racks.length\<close>.\<close>

fun jdivr :: "jsnum \<Rightarrow> real \<Rightarrow> jsnum" where
  "jdivr (Fin a) b = jdiv a b"
| "jdivr PInf b = (if 0 \<le> b then PInf else NInf)"
| "jdivr NInf b = (if 0 \<le> b then NInf else PInf)"
| "jdivr NaN b = NaN"

text \<open>\<open>Math.max\<close> and \<open>Math.min\<close>: NaN if either argument is NaN.\<close>

fun jmax :: "jsnum \<Rightarrow> jsnum \<Rightarrow> jsnum" where
  "jmax NaN _ = NaN"
| "jmax _ NaN = NaN"
| "jmax PInf _ = PInf"
| "jmax _ PInf = PInf"
| "jmax NInf b = b"
| "jmax a NInf = a"
| "jmax (Fin a) (Fin b) = Fin (max a b)"

fun jmin :: "jsnum \<Rightarrow> jsnum \<Rightarrow> jsnum" where
  "jmin NaN _ = NaN"
| "jmin _ NaN = NaN"
| "jmin NInf _ = NInf"
| "jmin _ NInf = NInf"
| "jmin PInf b = b"
| "jmin a PInf = a"
| "jmin (Fin a) (Fin b) = Fin (min a b)"

text \<open>\<open>a > b\<close>: false whenever an argument is NaN.\<close>

fun jgt :: "jsnum \<Rightarrow> jsnum \<Rightarrow> bool" where
  "jgt NaN _ = False"
| "jgt _ NaN = False"
| "jgt (Fin a) (Fin b) = (b < a)"
| "jgt PInf PInf = False"
| "jgt PInf _ = True"
| "jgt NInf _ = False"
| "jgt (Fin a) NInf = True"
| "jgt (Fin a) PInf = False"

section \<open>Data model\<close>

record position =
  pos_x :: real
  pos_y :: real

record dimensions =
  dim_width :: real
  dim_height :: real

datatype rack_type = Standard | HighDensity | Freezer | Bulk

fun type_name :: "rack_type \<Rightarrow> string" where
  "type_name Standard = ''standard''"
| "type_name HighDensity = ''high-density''"
| "type_name Freezer = ''freezer''"
| "type_name Bulk = ''bulk''"

text \<open>An entry of \<open>rackSpecs\<close> (the colour and display name are not modelled).\<close>

record rack_spec =
  spec_width :: real
  spec_height :: real
  spec_capacity :: nat

text \<open>A rack object; \<open>position\<close> is \<open>None\<close> for JavaScript's \<open>null\<close>.\<close>

record rack =
  rack_id :: string
  rtype :: rack_type
  width :: real
  height :: real
  capacity :: nat
  position :: "position option"

text \<open>A fixed obstacle of \<open>layout.constraints\<close>.\<close>

record constraint =
  c_position :: position
  c_dimensions :: dimensions

record store_section =
  sec_x :: real
  sec_y :: real
  sec_width :: real
  sec_height :: real

text \<open>
  The layout object. \<open>storeShape\<close> is \<open>None\<close> where the field is missing, as in
  every layout built by optimizer.js.
\<close>

record layout =
  l_width :: real
  l_height :: real
  storeShape :: "store_section list option"
  constraints :: "constraint list"
  entrance :: position
  loadingDock :: position

text \<open>
  The fields and literals in which the copies of \<open>RackOptimizer\<close> differ:
  \<open>this.minAisleWidth\<close>, \<open>this.rackSpecs\<close>, the grid step of \<open>placeRacks\<close> and the
  density placeholder of \<open>calculateScore\<close>.
\<close>

record optimizer =
  minAisleWidth :: real
  rackSpecs :: "rack_type \<Rightarrow> rack_spec"
  gridStep :: real
  densityPlaceholder :: real

fun basic_specs :: "rack_type \<Rightarrow> rack_spec" where
  "basic_specs Standard = \<lparr>spec_width = 12/10, spec_height = 24/10, spec_capacity = 200\<rparr>"
| "basic_specs HighDensity = \<lparr>spec_width = 8/10, spec_height = 3, spec_capacity = 300\<rparr>"
| "basic_specs Freezer = \<lparr>spec_width = 15/10, spec_height = 2, spec_capacity = 150\<rparr>"
| "basic_specs Bulk = \<lparr>spec_width = 2, spec_height = 15/10, spec_capacity = 100\<rparr>"

fun enhanced_specs :: "rack_type \<Rightarrow> rack_spec" where
  "enhanced_specs Standard = \<lparr>spec_width = 4, spec_height = 8, spec_capacity = 200\<rparr>"
| "enhanced_specs HighDensity = \<lparr>spec_width = 25/10, spec_height = 10, spec_capacity = 300\<rparr>"
| "enhanced_specs Freezer = \<lparr>spec_width = 5, spec_height = 65/10, spec_capacity = 150\<rparr>"
| "enhanced_specs Bulk = \<lparr>spec_width = 65/10, spec_height = 5, spec_capacity = 100\<rparr>"

text \<open>The \<open>RackOptimizer\<close> of optimizer.js (metres).\<close>

definition basic_optimizer :: optimizer where
  "basic_optimizer =
     \<lparr>minAisleWidth = 18/10, rackSpecs = basic_specs, gridStep = 2, densityPlaceholder = 2/10\<rparr>"

text \<open>The enhanced \<open>RackOptimizer\<close> with the genetic algorithm (feet).\<close>

definition enhanced_optimizer :: optimizer where
  "enhanced_optimizer =
     \<lparr>minAisleWidth = 25/10, rackSpecs = enhanced_specs, gridStep = 4, densityPlaceholder = 3/10\<rparr>"

text \<open>The \<open>ImageLayoutOptimizer\<close> of image-optimizer.js (feet); its grid size is 4.\<close>

definition image_optimizer :: optimizer where
  "image_optimizer =
     \<lparr>minAisleWidth = 25/10, rackSpecs = enhanced_specs, gridStep = 4, densityPlaceholder = 3/10\<rparr>"

section \<open>Geometry\<close>

definition isPointInStore :: "real \<Rightarrow> real \<Rightarrow> store_section list \<Rightarrow> bool" where
  "isPointInStore x y shape =
     list_ex (\<lambda>s. sec_x s \<le> x \<and> x \<le> sec_x s + sec_width s \<and>
                   sec_y s \<le> y \<and> y \<le> sec_y s + sec_height s) shape"

definition rectanglesOverlap :: "position \<Rightarrow> dimensions \<Rightarrow> position \<Rightarrow> dimensions \<Rightarrow> bool" where
  "rectanglesOverlap pos1 dim1 pos2 dim2 =
     (\<not> (pos_x pos1 + dim_width dim1 \<le> pos_x pos2 \<or>
         pos_x pos2 + dim_width dim2 \<le> pos_x pos1 \<or>
         pos_y pos1 + dim_height dim1 \<le> pos_y pos2 \<or>
         pos_y pos2 + dim_height dim2 \<le> pos_y pos1))"

definition calculateDistance :: "position \<Rightarrow> position \<Rightarrow> real" where
  "calculateDistance pos1 pos2 =
     sqrt ((pos_x pos1 - pos_x pos2)\<^sup>2 + (pos_y pos1 - pos_y pos2)\<^sup>2)"

definition rack_dims :: "rack \<Rightarrow> dimensions" where
  "rack_dims r = \<lparr>dim_width = width r, dim_height = height r\<rparr>"

text \<open>The centre of a rack's footprint when its corner is at \<open>p\<close>.\<close>

definition rack_center :: "rack \<Rightarrow> position \<Rightarrow> position" where
  "rack_center r p = \<lparr>pos_x = pos_x p + width r / 2, pos_y = pos_y p + height r / 2\<rparr>"

section \<open>Placement validator\<close>

definition isRackInStoreShape :: "rack \<Rightarrow> position \<Rightarrow> store_section list \<Rightarrow> bool" where
  "isRackInStoreShape r p shape =
     list_all (\<lambda>c. isPointInStore (pos_x c) (pos_y c) shape)
       [\<lparr>pos_x = pos_x p, pos_y = pos_y p\<rparr>,
        \<lparr>pos_x = pos_x p + width r, pos_y = pos_y p\<rparr>,
        \<lparr>pos_x = pos_x p, pos_y = pos_y p + height r\<rparr>,
        \<lparr>pos_x = pos_x p + width r, pos_y = pos_y p + height r\<rparr>]"

definition minRequiredDistance :: "optimizer \<Rightarrow> rack \<Rightarrow> rack \<Rightarrow> real" where
  "minRequiredDistance this r placedRack =
     minAisleWidth this + (width r + height r + width placedRack + height placedRack) / 4"

text \<open>
  \<open>hasAdequateAisles\<close> of \<open>RackOptimizer\<close>: the loop returns false at the first placed
  rack that is too close and skips the racks without a position.
\<close>

fun hasAdequateAisles :: "optimizer \<Rightarrow> rack \<Rightarrow> position \<Rightarrow> rack list \<Rightarrow> bool" where
  "hasAdequateAisles this r p [] = True"
| "hasAdequateAisles this r p (placedRack # rest) =
     (case position placedRack of
        None \<Rightarrow> hasAdequateAisles this r p rest
      | Some q \<Rightarrow>
          if calculateDistance (rack_center r p) (rack_center placedRack q)
               < minRequiredDistance this r placedRack
          then False
          else hasAdequateAisles this r p rest)"

text \<open>
  \<open>hasAdequateAisles\<close> of \<open>ImageLayoutOptimizer\<close>: the distance is taken between the
  two \<open>position\<close> values themselves.
\<close>

fun hasAdequateAisles_img :: "optimizer \<Rightarrow> rack \<Rightarrow> position \<Rightarrow> rack list \<Rightarrow> bool" where
  "hasAdequateAisles_img this r p [] = True"
| "hasAdequateAisles_img this r p (other # rest) =
     (case position other of
        None \<Rightarrow> hasAdequateAisles_img this r p rest
      | Some q \<Rightarrow>
          if sqrt ((pos_x p - pos_x q)\<^sup>2 + (pos_y p - pos_y q)\<^sup>2)
               < minRequiredDistance this r other
          then False
          else hasAdequateAisles_img this r p rest)"

definition out_of_bounds :: "rack \<Rightarrow> position \<Rightarrow> layout \<Rightarrow> bool" where
  "out_of_bounds r p l =
     (pos_x p < 0 \<or> pos_y p < 0 \<or>
      pos_x p + width r > l_width l \<or> pos_y p + height r > l_height l)"

definition hits_constraint :: "rack \<Rightarrow> position \<Rightarrow> layout \<Rightarrow> bool" where
  "hits_constraint r p l =
     list_ex (\<lambda>c. rectanglesOverlap p (rack_dims r) (c_position c) (c_dimensions c))
       (constraints l)"

definition hits_rack :: "rack \<Rightarrow> position \<Rightarrow> rack list \<Rightarrow> bool" where
  "hits_rack r p placedRacks =
     list_ex (\<lambda>placedRack.
        case position placedRack of
          None \<Rightarrow> False
        | Some q \<Rightarrow> rectanglesOverlap p (rack_dims r) q (rack_dims placedRack))
       placedRacks"

text \<open>
  \<open>isValidPlacement\<close> of \<open>RackOptimizer\<close>. The store-shape test belongs to the enhanced
  copy; with \<open>storeShape\<close> missing it is skipped, which is the text of optimizer.js.
\<close>

definition isValidPlacement :: "optimizer \<Rightarrow> rack \<Rightarrow> position \<Rightarrow> layout \<Rightarrow> rack list \<Rightarrow> bool" where
  "isValidPlacement this r p l placedRacks =
     (if out_of_bounds r p l then False
      else if (case storeShape l of None \<Rightarrow> False
               | Some shape \<Rightarrow> \<not> isRackInStoreShape r p shape) then False
      else if hits_constraint r p l then False
      else if hits_rack r p placedRacks then False
      else hasAdequateAisles this r p placedRacks)"

text \<open>\<open>isValidPlacement\<close> of \<open>ImageLayoutOptimizer\<close>: no store-shape test.\<close>

definition isValidPlacement_img :: "optimizer \<Rightarrow> rack \<Rightarrow> position \<Rightarrow> layout \<Rightarrow> rack list \<Rightarrow> bool" where
  "isValidPlacement_img this r p l otherRacks =
     (if out_of_bounds r p l then False
      else if hits_constraint r p l then False
      else if hits_rack r p otherRacks then False
      else hasAdequateAisles_img this r p otherRacks)"


section \<open>Scoring engine\<close>

record score_result =
  totalScore :: jsnum
  layoutEfficiency :: jsnum
  accessibility :: jsnum
  workflow :: real

definition total_rack_area :: "rack list \<Rightarrow> real" where
  "total_rack_area racks = foldl (\<lambda>sum rack. sum + width rack * height rack) 0 racks"

text \<open>
  \<open>calculateLayoutArea\<close> of the enhanced copy. optimizer.js, whose layouts have no
  \<open>storeShape\<close>, writes the product of width and height in its place.
\<close>

definition calculateLayoutArea :: "layout \<Rightarrow> real" where
  "calculateLayoutArea l =
     (case storeShape l of
        Some shape \<Rightarrow> foldl (\<lambda>sum s. sum + sec_width s * sec_height s) 0 shape
      | None \<Rightarrow> l_width l * l_height l)"

definition maxDistance :: "layout \<Rightarrow> real" where
  "maxDistance l = sqrt (l_width l * l_width l + l_height l * l_height l)"

text \<open>One step of the loop of \<open>calculateAccessibility\<close>; \<open>c\<close> is the point measured from.\<close>

definition closeness :: "layout \<Rightarrow> position \<Rightarrow> jsnum" where
  "closeness l c =
     (let entranceScore = jsub (Fin 1) (jdiv (calculateDistance c (entrance l)) (maxDistance l));
          dockScore = jsub (Fin 1) (jdiv (calculateDistance c (loadingDock l)) (maxDistance l))
      in jdivr (jadd entranceScore dockScore) 2)"

definition calculateAccessibility :: "rack list \<Rightarrow> layout \<Rightarrow> jsnum" where
  "calculateAccessibility racks l =
     (if racks = [] then Fin 0
      else jdivr
        (foldl (\<lambda>total rack.
            case position rack of
              None \<Rightarrow> total
            | Some p \<Rightarrow> jadd total (closeness l (rack_center rack p)))
          (Fin 0) racks)
        (real (length racks)))"

definition calculateVariance :: "real list \<Rightarrow> real" where
  "calculateVariance values =
     (if values = [] then 0
      else let mean = foldl (+) 0 values / real (length values)
           in foldl (\<lambda>sum val. sum + (val - mean)\<^sup>2) 0 values / real (length values))"

text \<open>The differences \<open>c[i] - c[i-1]\<close> for \<open>i\<close> from 1.\<close>

definition spacings :: "real list \<Rightarrow> real list" where
  "spacings cs = map (\<lambda>(prev, cur). cur - prev) (zip cs (tl cs))"

text \<open>\<open>[...new Set(values)].sort((a, b) => a - b)\<close>: the distinct values, ascending.\<close>

definition distinct_sorted :: "real list \<Rightarrow> real list" where
  "distinct_sorted vs = sort (remdups vs)"

definition placed_positions :: "rack list \<Rightarrow> position list" where
  "placed_positions racks = map (\<lambda>rack. the (position rack)) (filter (\<lambda>rack. position rack \<noteq> None) racks)"

definition calculateWorkflow :: "rack list \<Rightarrow> real" where
  "calculateWorkflow racks =
     (if length racks < 2 then 1
      else let positions = placed_positions racks in
        if length positions < 2 then 1/2
        else let xCoords = distinct_sorted (map pos_x positions);
                 yCoords = distinct_sorted (map pos_y positions);
                 regularityScore =
                   (if length xCoords > 1 \<and> length yCoords > 1
                    then 1 / (1 + calculateVariance (spacings xCoords)
                                + calculateVariance (spacings yCoords))
                    else 0)
             in min 1 (max 0 regularityScore))"

definition calculateScore :: "optimizer \<Rightarrow> rack list \<Rightarrow> layout \<Rightarrow> score_result" where
  "calculateScore this racks l =
     (if racks = [] then
        \<lparr>totalScore = Fin 0, layoutEfficiency = Fin 0, accessibility = Fin 0, workflow = 0\<rparr>
      else
        let le = jdiv (total_rack_area racks) (calculateLayoutArea l);
            acc = calculateAccessibility racks l;
            wf = calculateWorkflow racks;
            total = jadd (jadd (jadd (jscale le 30) (jscale acc 25)) (Fin (wf * 25)))
                      (Fin (densityPlaceholder this * 20))
        in \<lparr>totalScore = jmin (Fin 100) (jmax (Fin 0) total),
            layoutEfficiency = le, accessibility = acc, workflow = wf\<rparr>)"

section \<open>Metrics\<close>

text \<open>The \<open>metrics\<close> object of a solution: \<open>calculateMetrics\<close> and the three scores.\<close>

record metrics_result =
  totalRacks :: nat
  totalCapacity :: nat
  avgDistanceToEntrance :: real
  avgDistanceToDock :: real
  areaUtilization :: jsnum
  m_layoutEfficiency :: jsnum
  m_accessibility :: jsnum
  m_workflow :: real

record solution =
  racks :: "rack list"
  score :: jsnum
  metrics :: metrics_result

definition calculateAverageDistance :: "rack list \<Rightarrow> position \<Rightarrow> real" where
  "calculateAverageDistance rs point =
     (if rs = [] then 0
      else foldl (+) 0
             (map (\<lambda>rack. case position rack of
                              None \<Rightarrow> 0
                            | Some p \<Rightarrow> calculateDistance (rack_center rack p) point) rs)
           / real (length rs))"

text \<open>
  \<open>calculateMetrics\<close> spread into the solution's \<open>metrics\<close> together with the scores, as
  \<open>placeRacks\<close> and \<open>evaluateIndividual\<close> build it.
\<close>

definition solution_of :: "optimizer \<Rightarrow> rack list \<Rightarrow> layout \<Rightarrow> solution" where
  "solution_of this placedRacks l =
     (let sc = calculateScore this placedRacks l
      in \<lparr>racks = placedRacks,
          score = totalScore sc,
          metrics =
            \<lparr>totalRacks = length placedRacks,
             totalCapacity = foldl (\<lambda>sum rack. sum + capacity rack) 0 placedRacks,
             avgDistanceToEntrance = calculateAverageDistance placedRacks (entrance l),
             avgDistanceToDock = calculateAverageDistance placedRacks (loadingDock l),
             areaUtilization = jdiv (total_rack_area placedRacks) (calculateLayoutArea l),
             m_layoutEfficiency = layoutEfficiency sc,
             m_accessibility = accessibility sc,
             m_workflow = workflow sc\<rparr>\<rparr>)"

section \<open>Grid placement\<close>

definition maxAttempts :: nat where
  "maxAttempts = 100"

definition grid_position :: "optimizer \<Rightarrow> int \<Rightarrow> int \<Rightarrow> position" where
  "grid_position this i j =
     \<lparr>pos_x = of_int i * gridStep this, pos_y = of_int j * gridStep this\<rparr>"

text \<open>
  The inner loop of \<open>placeRacks\<close> over \<open>j\<close>, for the column \<open>i\<close>: the position found,
  if any, and the attempts counted so far.
\<close>

function scan_column ::
  "optimizer \<Rightarrow> rack \<Rightarrow> layout \<Rightarrow> rack list \<Rightarrow> int \<Rightarrow> int \<Rightarrow> int \<Rightarrow> nat \<Rightarrow> position option \<times> nat"
where
  "scan_column this r l placedRacks gridY i j attempts =
     (if j < gridY \<and> attempts < maxAttempts then
        (if isValidPlacement this r (grid_position this i j) l placedRacks
         then (Some (grid_position this i j), Suc attempts)
         else scan_column this r l placedRacks gridY i (j + 1) (Suc attempts))
      else (None, attempts))"
  by pat_completeness auto
termination
  by (relation "measure (\<lambda>(this, r, l, placedRacks, gridY, i, j, attempts). nat (gridY - j))") auto

text \<open>The outer loop over \<open>i\<close>.\<close>

function scan_grid ::
  "optimizer \<Rightarrow> rack \<Rightarrow> layout \<Rightarrow> rack list \<Rightarrow> int \<Rightarrow> int \<Rightarrow> int \<Rightarrow> nat \<Rightarrow> position option"
where
  "scan_grid this r l placedRacks gridX gridY i attempts =
     (if i < gridX \<and> attempts < maxAttempts then
        (case scan_column this r l placedRacks gridY i 0 attempts of
           (Some p, _) \<Rightarrow> Some p
         | (None, attempts') \<Rightarrow> scan_grid this r l placedRacks gridX gridY (i + 1) attempts')
      else None)"
  by pat_completeness auto
termination
  by (relation "measure (\<lambda>(this, r, l, placedRacks, gridX, gridY, i, attempts). nat (gridX - i))") auto

declare scan_column.simps [simp del] scan_grid.simps [simp del]

text \<open>
  The loop over the racks. A rack that finds a position is pushed, with that position,
  onto \<open>placedRacks\<close>; a rack that finds none is not pushed. The racks are values
  here: the rack objects of the input are taken to be distinct objects, as
  \<open>generateRacks\<close> creates them.
\<close>

fun place_each :: "optimizer \<Rightarrow> layout \<Rightarrow> rack list \<Rightarrow> rack list \<Rightarrow> rack list" where
  "place_each this l [] placedRacks = placedRacks"
| "place_each this l (r # rest) placedRacks =
     (case scan_grid this r l placedRacks
             \<lfloor>l_width l / gridStep this\<rfloor> \<lfloor>l_height l / gridStep this\<rfloor> 0 0 of
        Some p \<Rightarrow> place_each this l rest (placedRacks @ [r\<lparr>position := Some p\<rparr>])
      | None \<Rightarrow> place_each this l rest placedRacks)"

definition placeRacks :: "optimizer \<Rightarrow> rack list \<Rightarrow> layout \<Rightarrow> solution" where
  "placeRacks this rs l = solution_of this (place_each this l rs []) l"

section \<open>Rack generator\<close>

text \<open>The four counts of a request, the integers that \<open>parseInt\<close> delivers.\<close>

record rack_counts =
  standardRacks :: int
  highDensityRacks :: int
  freezerRacks :: int
  bulkRacks :: int

definition digit_char :: "nat \<Rightarrow> char" where
  "digit_char d = ''0123456789'' ! d"

text \<open>The decimal numeral of a counter, as a template literal prints it.\<close>

function string_of_nat :: "nat \<Rightarrow> string" where
  "string_of_nat n =
     (if n < 10 then [digit_char n] else string_of_nat (n div 10) @ [digit_char (n mod 10)])"
  by pat_completeness auto
termination
  by (relation "measure id") auto

declare string_of_nat.simps [simp del]

definition new_rack :: "optimizer \<Rightarrow> rack_type \<Rightarrow> nat \<Rightarrow> rack" where
  "new_rack this t n =
     \<lparr>rack_id = type_name t @ ''_'' @ string_of_nat n,
      rtype = t,
      width = spec_width (rackSpecs this t),
      height = spec_height (rackSpecs this t),
      capacity = spec_capacity (rackSpecs this t),
      position = None\<rparr>"

text \<open>
  One of the four loops of \<open>generateRacks\<close>: the list and the counter \<open>id\<close> are
  shared by all four and handed on.
\<close>

function generate_type ::
  "optimizer \<Rightarrow> rack_type \<Rightarrow> int \<Rightarrow> int \<Rightarrow> rack list \<times> nat \<Rightarrow> rack list \<times> nat"
where
  "generate_type this t count i (rs, ident) =
     (if i < count
      then generate_type this t count (i + 1) (rs @ [new_rack this t ident], Suc ident)
      else (rs, ident))"
  by pat_completeness auto
termination
  by (relation "measure (\<lambda>(this, t, count, i, st). nat (count - i))") auto

declare generate_type.simps [simp del]

definition generateRacks :: "optimizer \<Rightarrow> 'a rack_counts_scheme \<Rightarrow> rack list" where
  "generateRacks this config =
     fst (generate_type this Bulk (bulkRacks config) 0
           (generate_type this Freezer (freezerRacks config) 0
             (generate_type this HighDensity (highDensityRacks config) 0
               (generate_type this Standard (standardRacks config) 0 ([], 1)))))"

section \<open>Random draws\<close>

text \<open>
  The calls of \<open>Math.random()\<close> of a run, numbered in the order in which they are made.
  The source of the draws is any sequence of reals; a draw is its member reduced to the
  interval from 0 (included) to 1 (excluded), so every sequence of draws is covered.
  A function that draws takes the number of the next call and hands on the number after
  its last one.
\<close>

type_synonym rng = "nat \<Rightarrow> real"

definition Math_random :: "rng \<Rightarrow> nat \<Rightarrow> real" where
  "Math_random draws n = frac (draws n)"

section \<open>The scoring and the grid placement of ImageLayoutOptimizer\<close>

definition calculateAccessibility_img :: "rack list \<Rightarrow> layout \<Rightarrow> jsnum" where
  "calculateAccessibility_img rs l =
     (if rs = [] then Fin 0
      else jdivr
        (foldl (\<lambda>total rack.
            case position rack of
              None \<Rightarrow> total
            | Some p \<Rightarrow> jadd total (closeness l p))
          (Fin 0) rs)
        (real (length rs)))"

text \<open>\<open>Math.round(v / 4) * 4\<close>; \<open>Math.round\<close> rounds a half upwards.\<close>

definition round_to_grid :: "real \<Rightarrow> real" where
  "round_to_grid v = of_int \<lfloor>v / 4 + 1/2\<rfloor> * 4"

definition calculateWorkflow_img :: "rack list \<Rightarrow> real" where
  "calculateWorkflow_img rs =
     (if length rs < 2 then 1
      else let positions = placed_positions rs in
        if length positions < 2 then 1/2
        else let xCoords = distinct_sorted (map (\<lambda>p. round_to_grid (pos_x p)) positions);
                 yCoords = distinct_sorted (map (\<lambda>p. round_to_grid (pos_y p)) positions)
             in if length xCoords < 2 \<or> length yCoords < 2 then 1/2 else 8/10)"

definition calculateScore_img :: "optimizer \<Rightarrow> rack list \<Rightarrow> layout \<Rightarrow> score_result" where
  "calculateScore_img this rs l =
     (if rs = [] then
        \<lparr>totalScore = Fin 0, layoutEfficiency = Fin 0, accessibility = Fin 0, workflow = 0\<rparr>
      else
        let le = jdiv (total_rack_area rs) (l_width l * l_height l);
            acc = calculateAccessibility_img rs l;
            wf = calculateWorkflow_img rs;
            total = jadd (jadd (jadd (jscale le 30) (jscale acc 25)) (Fin (wf * 25)))
                      (Fin (densityPlaceholder this * 20))
        in \<lparr>totalScore = jmin (Fin 100) (jmax (Fin 0) total),
            layoutEfficiency = le, accessibility = acc, workflow = wf\<rparr>)"

definition calculateAverageDistance_img :: "rack list \<Rightarrow> position \<Rightarrow> real" where
  "calculateAverageDistance_img rs point =
     (if rs = [] then 0
      else foldl (+) 0
             (map (\<lambda>rack. case position rack of
                              None \<Rightarrow> 0
                            | Some p \<Rightarrow> calculateDistance p point) rs)
           / real (length rs))"

definition solution_of_img :: "optimizer \<Rightarrow> rack list \<Rightarrow> layout \<Rightarrow> solution" where
  "solution_of_img this placedRacks l =
     (let sc = calculateScore_img this placedRacks l
      in \<lparr>racks = placedRacks,
          score = totalScore sc,
          metrics =
            \<lparr>totalRacks = length placedRacks,
             totalCapacity = foldl (\<lambda>sum rack. sum + capacity rack) 0 placedRacks,
             avgDistanceToEntrance = calculateAverageDistance_img placedRacks (entrance l),
             avgDistanceToDock = calculateAverageDistance_img placedRacks (loadingDock l),
             areaUtilization = jdiv (total_rack_area placedRacks) (l_width l * l_height l),
             m_layoutEfficiency = layoutEfficiency sc,
             m_accessibility = accessibility sc,
             m_workflow = workflow sc\<rparr>\<rparr>)"

text \<open>The position drawn by one attempt of \<open>gridBasedOptimization\<close>: two draws.\<close>

definition random_grid_position :: "optimizer \<Rightarrow> rng \<Rightarrow> nat \<Rightarrow> rack \<Rightarrow> layout \<Rightarrow> position" where
  "random_grid_position this draws n r l =
     \<lparr>pos_x = of_int \<lfloor>Math_random draws n * (l_width l - width r) / gridStep this\<rfloor>
                * gridStep this,
      pos_y = of_int \<lfloor>Math_random draws (n + 1) * (l_height l - height r) / gridStep this\<rfloor>
                * gridStep this\<rparr>"

text \<open>The \<open>while\<close> loop of \<open>gridBasedOptimization\<close> for one rack.\<close>

function grid_attempts_img ::
  "optimizer \<Rightarrow> rng \<Rightarrow> nat \<Rightarrow> rack \<Rightarrow> layout \<Rightarrow> rack list \<Rightarrow> nat \<Rightarrow> position option \<times> nat"
where
  "grid_attempts_img this draws n r l placedRacks attempts =
     (if attempts < maxAttempts then
        (if isValidPlacement_img this r (random_grid_position this draws n r l) l placedRacks
         then (Some (random_grid_position this draws n r l), n + 2)
         else grid_attempts_img this draws (n + 2) r l placedRacks (Suc attempts))
      else (None, n))"
  by pat_completeness auto
termination
  by (relation "measure (\<lambda>(this, draws, n, r, l, placedRacks, attempts). maxAttempts - attempts)")
    auto

declare grid_attempts_img.simps [simp del]

fun place_each_img ::
  "optimizer \<Rightarrow> rng \<Rightarrow> nat \<Rightarrow> layout \<Rightarrow> rack list \<Rightarrow> rack list \<Rightarrow> rack list \<times> nat"
where
  "place_each_img this draws n l [] placedRacks = (placedRacks, n)"
| "place_each_img this draws n l (r # rest) placedRacks =
     (case grid_attempts_img this draws n r l placedRacks 0 of
        (Some p, n') \<Rightarrow>
          place_each_img this draws n' l rest (placedRacks @ [r\<lparr>position := Some p\<rparr>])
      | (None, n') \<Rightarrow> place_each_img this draws n' l rest placedRacks)"

definition gridBasedOptimization_img ::
  "optimizer \<Rightarrow> rng \<Rightarrow> nat \<Rightarrow> rack list \<Rightarrow> layout \<Rightarrow> solution"
where
  "gridBasedOptimization_img this draws n rs l =
     solution_of_img this (fst (place_each_img this draws n l rs [])) l"

section \<open>Genetic placement\<close>

text \<open>The parameters of the genetic algorithm, set once by the constructor.\<close>

definition populationSize :: nat where
  "populationSize = 50"

definition generations :: nat where
  "generations = 100"

definition mutationRate :: real where
  "mutationRate = 1/10"

definition eliteCount :: nat where
  "eliteCount = 5"

text \<open>Reading a property of \<open>undefined\<close> or \<open>null\<close> raises a TypeError.\<close>

datatype error = TypeError

definition evaluateIndividual :: "optimizer \<Rightarrow> rack list \<Rightarrow> layout \<Rightarrow> solution" where
  "evaluateIndividual this individual l =
     solution_of this (filter (\<lambda>rack. position rack \<noteq> None) individual) l"

definition random_position :: "rng \<Rightarrow> nat \<Rightarrow> rack \<Rightarrow> layout \<Rightarrow> position" where
  "random_position draws n r l =
     \<lparr>pos_x = Math_random draws n * (l_width l - width r),
      pos_y = Math_random draws (n + 1) * (l_height l - height r)\<rparr>"

text \<open>The \<open>while\<close> loop of \<open>createRandomIndividual\<close> for one rack.\<close>

function random_attempts ::
  "optimizer \<Rightarrow> rng \<Rightarrow> nat \<Rightarrow> rack \<Rightarrow> layout \<Rightarrow> rack list \<Rightarrow> nat \<Rightarrow> position option \<times> nat"
where
  "random_attempts this draws n r l individual attempts =
     (if attempts < 100 then
        (if isValidPlacement this r (random_position draws n r l) l individual
         then (Some (random_position draws n r l), n + 2)
         else random_attempts this draws (n + 2) r l individual (Suc attempts))
      else (None, n))"
  by pat_completeness auto
termination
  by (relation "measure (\<lambda>(this, draws, n, r, l, individual, attempts). 100 - attempts)") auto

declare random_attempts.simps [simp del]

fun create_each ::
  "optimizer \<Rightarrow> rng \<Rightarrow> nat \<Rightarrow> layout \<Rightarrow> rack list \<Rightarrow> rack list \<Rightarrow> rack list \<times> nat"
where
  "create_each this draws n l [] individual = (individual, n)"
| "create_each this draws n l (r # rest) individual =
     (case random_attempts this draws n r l individual 0 of
        (Some p, n') \<Rightarrow> create_each this draws n' l rest (individual @ [r\<lparr>position := Some p\<rparr>])
      | (None, n') \<Rightarrow> create_each this draws n' l rest (individual @ [r\<lparr>position := None\<rparr>]))"

definition createRandomIndividual ::
  "optimizer \<Rightarrow> rng \<Rightarrow> nat \<Rightarrow> rack list \<Rightarrow> layout \<Rightarrow> rack list \<times> nat"
where
  "createRandomIndividual this draws n rs l = create_each this draws n l rs []"

function population_loop ::
  "optimizer \<Rightarrow> rng \<Rightarrow> nat \<Rightarrow> rack list \<Rightarrow> layout \<Rightarrow> nat \<Rightarrow> rack list list
     \<Rightarrow> rack list list \<times> nat"
where
  "population_loop this draws n rs l i population =
     (if i < populationSize then
        (case createRandomIndividual this draws n rs l of
           (individual, n') \<Rightarrow>
             population_loop this draws n' rs l (Suc i) (population @ [individual]))
      else (population, n))"
  by pat_completeness auto
termination
  by (relation "measure (\<lambda>(this, draws, n, rs, l, i, population). populationSize - i)") auto

declare population_loop.simps [simp del]

definition initializePopulation ::
  "optimizer \<Rightarrow> rng \<Rightarrow> nat \<Rightarrow> rack list \<Rightarrow> layout \<Rightarrow> rack list list \<times> nat"
where
  "initializePopulation this draws n rs l = population_loop this draws n rs l 0 []"

text \<open>An entry of the evaluated population.\<close>

record evaluated =
  ev_individual :: "rack list"
  fitness :: jsnum
  ev_solution :: solution

text \<open>
  The \<open>population.map\<close> of a generation, which also updates \<open>bestSolution\<close> and
  \<open>bestScore\<close>, here the pair \<open>best\<close>.
\<close>

fun evaluate_population ::
  "optimizer \<Rightarrow> layout \<Rightarrow> rack list list \<Rightarrow> solution option \<times> jsnum
     \<Rightarrow> evaluated list \<times> (solution option \<times> jsnum)"
where
  "evaluate_population this l [] best = ([], best)"
| "evaluate_population this l (ind # rest) best =
     (let sol = evaluateIndividual this ind l;
          best' = (if jgt (score sol) (snd best) then (Some sol, score sol) else best);
          res = evaluate_population this l rest best'
      in (\<lparr>ev_individual = ind, fitness = score sol, ev_solution = sol\<rparr> # fst res, snd res))"

text \<open>
  \<open>Array.prototype.sort\<close> with a comparator: a stable sort in which \<open>a\<close> goes behind
  \<open>b\<close> when the comparator's value for \<open>(a, b)\<close> is above 0. A comparator value of
  NaN counts as 0; the order the engines produce for a comparator that is not
  consistent is theirs and not modelled.
\<close>

fun insert_sorted :: "('a \<Rightarrow> 'a \<Rightarrow> jsnum) \<Rightarrow> 'a \<Rightarrow> 'a list \<Rightarrow> 'a list" where
  "insert_sorted cmp a [] = [a]"
| "insert_sorted cmp a (b # bs) =
     (if jgt (cmp a b) (Fin 0) then b # insert_sorted cmp a bs else a # b # bs)"

definition js_sort :: "('a \<Rightarrow> 'a \<Rightarrow> jsnum) \<Rightarrow> 'a list \<Rightarrow> 'a list" where
  "js_sort cmp xs = foldr (insert_sorted cmp) xs []"

text \<open>The comparator \<open>(a, b) => b.fitness - a.fitness\<close>.\<close>

definition by_fitness :: "evaluated \<Rightarrow> evaluated \<Rightarrow> jsnum" where
  "by_fitness a b = jsub (fitness b) (fitness a)"

text \<open>The elite loop; \<open>evaluatedPopulation[i]\<close> is \<open>undefined\<close> beyond the population.\<close>

function elite_loop :: "evaluated list \<Rightarrow> nat \<Rightarrow> rack list list \<Rightarrow> error + rack list list" where
  "elite_loop evaluatedPopulation i nextGeneration =
     (if i < eliteCount then
        (if i < length evaluatedPopulation
         then elite_loop evaluatedPopulation (Suc i)
                (nextGeneration @ [ev_individual (evaluatedPopulation ! i)])
         else Inl TypeError)
      else Inr nextGeneration)"
  by pat_completeness auto
termination
  by (relation "measure (\<lambda>(evaluatedPopulation, i, nextGeneration). eliteCount - i)") auto

declare elite_loop.simps [simp del]

text \<open>
  \<open>tournamentSelection\<close> with its default size 3: three draws. On an empty population
  every pick is \<open>undefined\<close> and \<open>tournament[0].individual\<close> raises.
\<close>

definition tournament_pick :: "rng \<Rightarrow> nat \<Rightarrow> evaluated list \<Rightarrow> evaluated" where
  "tournament_pick draws n population =
     population ! nat \<lfloor>Math_random draws n * real (length population)\<rfloor>"

definition tournamentSelection :: "rng \<Rightarrow> nat \<Rightarrow> evaluated list \<Rightarrow> error + rack list" where
  "tournamentSelection draws n population =
     (if population = [] then Inl TypeError
      else Inr (ev_individual (hd (js_sort by_fitness
             [tournament_pick draws n population,
              tournament_pick draws (n + 1) population,
              tournament_pick draws (n + 2) population]))))"

text \<open>
  \<open>crossover\<close>: one draw. All individuals of a run have the length of the rack list,
  so \<open>parent2[i]\<close> is defined wherever \<open>parent1[i]\<close> is.
\<close>

definition crossover :: "rng \<Rightarrow> nat \<Rightarrow> rack list \<Rightarrow> rack list \<Rightarrow> rack list" where
  "crossover draws n parent1 parent2 =
     (let crossoverPoint = nat \<lfloor>Math_random draws n * real (length parent1)\<rfloor>
      in map (\<lambda>i. if i < crossoverPoint then parent1 ! i else parent2 ! i)
           [0 ..< length parent1])"

text \<open>
  The loop of \<open>mutate\<close> over the copied individual: one draw for the test against the
  mutation rate and, if the rack is to be moved, two draws for the offsets.
\<close>

definition other_racks :: "rack list \<Rightarrow> nat \<Rightarrow> rack list" where
  "other_racks mutated i =
     map (\<lambda>idx. mutated ! idx)
       (filter (\<lambda>idx. idx \<noteq> i \<and> position (mutated ! idx) \<noteq> None) [0 ..< length mutated])"

definition mutated_position :: "rng \<Rightarrow> nat \<Rightarrow> rack \<Rightarrow> position \<Rightarrow> layout \<Rightarrow> position" where
  "mutated_position draws n r p l =
     (let maxAdjustment = 5;
          deltaX = (Math_random draws n - 1/2) * maxAdjustment;
          deltaY = (Math_random draws (n + 1) - 1/2) * maxAdjustment
      in \<lparr>pos_x = max 0 (min (l_width l - width r) (pos_x p + deltaX)),
          pos_y = max 0 (min (l_height l - height r) (pos_y p + deltaY))\<rparr>)"

function mutate_loop ::
  "optimizer \<Rightarrow> rng \<Rightarrow> nat \<Rightarrow> layout \<Rightarrow> rack list \<Rightarrow> nat \<Rightarrow> rack list \<times> nat"
where
  "mutate_loop this draws n l mutated i =
     (if i < length mutated then
        (case (if Math_random draws n < mutationRate then position (mutated ! i) else None) of
           Some p \<Rightarrow>
             (if isValidPlacement this (mutated ! i)
                   (mutated_position draws (n + 1) (mutated ! i) p l) l (other_racks mutated i)
              then mutate_loop this draws (n + 3) l
                     (mutated [i := (mutated ! i)
                        \<lparr>position := Some (mutated_position draws (n + 1) (mutated ! i) p l)\<rparr>])
                     (Suc i)
              else mutate_loop this draws (n + 3) l mutated (Suc i))
         | None \<Rightarrow> mutate_loop this draws (n + 1) l mutated (Suc i))
      else (mutated, n))"
  by pat_completeness auto
termination
  by (relation "measure (\<lambda>(this, draws, n, l, mutated, i). length mutated - i)") auto

declare mutate_loop.simps [simp del]

definition mutate :: "optimizer \<Rightarrow> rng \<Rightarrow> nat \<Rightarrow> rack list \<Rightarrow> layout \<Rightarrow> rack list \<times> nat" where
  "mutate this draws n individual l = mutate_loop this draws n l individual 0"

text \<open>The \<open>while\<close> loop that fills the next generation with offspring.\<close>

function offspring_loop ::
  "optimizer \<Rightarrow> rng \<Rightarrow> nat \<Rightarrow> layout \<Rightarrow> evaluated list \<Rightarrow> rack list list
     \<Rightarrow> error + rack list list \<times> nat"
where
  "offspring_loop this draws n l evaluatedPopulation nextGeneration =
     (if length nextGeneration < populationSize then
        (case tournamentSelection draws n evaluatedPopulation of
           Inl e \<Rightarrow> Inl e
         | Inr parent1 \<Rightarrow>
             (case tournamentSelection draws (n + 3) evaluatedPopulation of
                Inl e \<Rightarrow> Inl e
              | Inr parent2 \<Rightarrow>
                  offspring_loop this draws
                    (snd (mutate this draws (n + 7) (crossover draws (n + 6) parent1 parent2) l))
                    l evaluatedPopulation
                    (nextGeneration @
                       [fst (mutate this draws (n + 7) (crossover draws (n + 6) parent1 parent2) l)])))
      else Inr (nextGeneration, n))"
  by pat_completeness auto
termination
  by (relation "measure (\<lambda>(this, draws, n, l, evaluatedPopulation, nextGeneration).
        populationSize - length nextGeneration)") auto

declare offspring_loop.simps [simp del]

text \<open>The loop over the generations; \<open>best\<close> is \<open>(bestSolution, bestScore)\<close>.\<close>

function generation_loop ::
  "optimizer \<Rightarrow> rng \<Rightarrow> nat \<Rightarrow> layout \<Rightarrow> nat \<Rightarrow> rack list list \<Rightarrow> solution option \<times> jsnum
     \<Rightarrow> error + solution option"
where
  "generation_loop this draws n l generation population best =
     (if generation < generations then
        (case elite_loop
                (js_sort by_fitness (fst (evaluate_population this l population best))) 0 [] of
           Inl e \<Rightarrow> Inl e
         | Inr elite \<Rightarrow>
             (case offspring_loop this draws n l
                     (js_sort by_fitness (fst (evaluate_population this l population best)))
                     elite of
                Inl e \<Rightarrow> Inl e
              | Inr (nextGeneration, n') \<Rightarrow>
                  generation_loop this draws n' l (Suc generation) nextGeneration
                    (snd (evaluate_population this l population best))))
      else Inr (fst best))"
  by pat_completeness auto
termination
  by (relation "measure (\<lambda>(this, draws, n, l, generation, population, best).
        generations - generation)") auto

declare generation_loop.simps [simp del]

text \<open>
  \<open>geneticAlgorithmOptimization\<close>: \<open>Inr None\<close> is the return value \<open>null\<close>, the initial
  value of \<open>bestSolution\<close>.
\<close>

definition geneticAlgorithmOptimization ::
  "optimizer \<Rightarrow> rng \<Rightarrow> nat \<Rightarrow> rack list \<Rightarrow> layout \<Rightarrow> error + solution option"
where
  "geneticAlgorithmOptimization this draws n rs l =
     (case initializePopulation this draws n rs l of
        (population, n') \<Rightarrow> generation_loop this draws n' l 0 population (None, Fin 0))"

section \<open>The entry point of optimizer.js\<close>

record config = rack_counts +
  storeWidth :: real
  storeHeight :: real
  officeConstraint :: bool
  exitConstraint :: bool
  utilityConstraint :: bool
  pillarConstraint :: bool

definition office :: constraint where
  "office = \<lparr>c_position = \<lparr>pos_x = 0, pos_y = 0\<rparr>,
             c_dimensions = \<lparr>dim_width = 4, dim_height = 4\<rparr>\<rparr>"

definition exit_door :: constraint where
  "exit_door = \<lparr>c_position = \<lparr>pos_x = 18, pos_y = 0\<rparr>,
                c_dimensions = \<lparr>dim_width = 2, dim_height = 2\<rparr>\<rparr>"

definition utility :: constraint where
  "utility = \<lparr>c_position = \<lparr>pos_x = 0, pos_y = 26\<rparr>,
              c_dimensions = \<lparr>dim_width = 3, dim_height = 4\<rparr>\<rparr>"

definition pillar1 :: constraint where
  "pillar1 = \<lparr>c_position = \<lparr>pos_x = 10, pos_y = 15\<rparr>,
              c_dimensions = \<lparr>dim_width = 1/2, dim_height = 1/2\<rparr>\<rparr>"

definition getActiveConstraints :: "config \<Rightarrow> constraint list" where
  "getActiveConstraints cfg =
     (if officeConstraint cfg then [office] else []) @
     (if exitConstraint cfg then [exit_door] else []) @
     (if utilityConstraint cfg then [utility] else []) @
     (if pillarConstraint cfg then [pillar1] else [])"

definition layout_of :: "config \<Rightarrow> layout" where
  "layout_of cfg =
     \<lparr>l_width = storeWidth cfg, l_height = storeHeight cfg, storeShape = None,
      constraints = getActiveConstraints cfg,
      entrance = \<lparr>pos_x = 19, pos_y = 1\<rparr>, loadingDock = \<lparr>pos_x = 1, pos_y = 29\<rparr>\<rparr>"

text \<open>\<open>optimizeLayout\<close> of optimizer.js; its result also carries the layout.\<close>

definition optimizeLayout :: "config \<Rightarrow> solution" where
  "optimizeLayout cfg =
     placeRacks basic_optimizer (generateRacks basic_optimizer cfg) (layout_of cfg)"

section \<open>Properties of a set of placed racks\<close>

text \<open>
  Two racks are compatible when both have a position, their footprints do not overlap and
  the distance of their centres is not below the required minimum.
\<close>

definition racks_compatible :: "optimizer \<Rightarrow> rack \<Rightarrow> rack \<Rightarrow> bool" where
  "racks_compatible this a b =
     (case (position a, position b) of
        (Some p, Some q) \<Rightarrow>
          \<not> rectanglesOverlap p (rack_dims a) q (rack_dims b) \<and>
          \<not> calculateDistance (rack_center a p) (rack_center b q) < minRequiredDistance this a b
      | _ \<Rightarrow> False)"

definition clear_of_constraints :: "layout \<Rightarrow> rack \<Rightarrow> bool" where
  "clear_of_constraints l a =
     (case position a of
        Some p \<Rightarrow> list_all (\<lambda>c. \<not> rectanglesOverlap p (rack_dims a) (c_position c) (c_dimensions c))
                   (constraints l)
      | None \<Rightarrow> False)"

definition placement_ok :: "optimizer \<Rightarrow> layout \<Rightarrow> rack list \<Rightarrow> bool" where
  "placement_ok this l rs =
     ((\<forall>i < length rs. \<forall>j < length rs. i \<noteq> j \<longrightarrow> racks_compatible this (rs ! i) (rs ! j)) \<and>
      (\<forall>r \<in> set rs. clear_of_constraints l r))"

text \<open>A rack with its position forgotten, to compare racks up to their position.\<close>

definition unplaced :: "rack \<Rightarrow> rack" where
  "unplaced r = r\<lparr>position := None\<rparr>"

text \<open>The rack types of a request in the order of the four loops of \<open>generateRacks\<close>.\<close>

definition requested_types :: "'a rack_counts_scheme \<Rightarrow> rack_type list" where
  "requested_types config =
     replicate (nat (standardRacks config)) Standard @
     replicate (nat (highDensityRacks config)) HighDensity @
     replicate (nat (freezerRacks config)) Freezer @
     replicate (nat (bulkRacks config)) Bulk"

text \<open>
  The relation of a rack to its copy after a genetic operator: all fields but the
  position are the same, and a rack without a position has none afterwards.
\<close>

definition same_rack_moved :: "rack \<Rightarrow> rack \<Rightarrow> bool" where
  "same_rack_moved a b =
     (rack_id b = rack_id a \<and> rtype b = rtype a \<and> width b = width a \<and>
      height b = height a \<and> capacity b = capacity a \<and>
      (position a = None \<longrightarrow> position b = None))"

text \<open>Every rack type of the catalogue has a positive width and height.\<close>

definition positive_specs :: "optimizer \<Rightarrow> bool" where
  "positive_specs this =
     list_all (\<lambda>t. 0 < spec_width (rackSpecs this t) \<and> 0 < spec_height (rackSpecs this t))
       [Standard, HighDensity, Freezer, Bulk]"



text \<open>The evaluated entry of an individual without racks.\<close>

definition empty_evaluated :: "optimizer \<Rightarrow> layout \<Rightarrow> evaluated" where
  "empty_evaluated this l =
     \<lparr>ev_individual = [], fitness = Fin 0, ev_solution = evaluateIndividual this [] l\<rparr>"

text \<open>
  The pair \<open>(bestSolution, bestScore)\<close> of the genetic algorithm is coherent when the
  score is that of the solution, or the initial 0 while there is none, and is not NaN.
  \<open>at_least b' b\<close> says that \<open>b'\<close> is \<open>b\<close> or above it.
\<close>

definition best_inv :: "solution option \<times> jsnum \<Rightarrow> bool" where
  "best_inv best =
     ((case fst best of None \<Rightarrow> snd best = Fin 0 | Some sol \<Rightarrow> score sol = snd best) \<and>
      snd best \<noteq> NaN)"

definition at_least :: "jsnum \<Rightarrow> jsnum \<Rightarrow> bool" where
  "at_least b' b = (b' = b \<or> jgt b' b)"


section \<open>Example inputs\<close>

text \<open>A 40 by 30 rectangular store with a 10 by 10 processing area in its corner.\<close>

definition demo_layout :: layout where
  "demo_layout =
     \<lparr>l_width = 40, l_height = 30,
      storeShape = Some [\<lparr>sec_x = 0, sec_y = 0, sec_width = 40, sec_height = 30\<rparr>],
      constraints = [\<lparr>c_position = \<lparr>pos_x = 0, pos_y = 0\<rparr>,
                      c_dimensions = \<lparr>dim_width = 10, dim_height = 10\<rparr>\<rparr>],
      entrance = \<lparr>pos_x = 38, pos_y = 2\<rparr>,
      loadingDock = \<lparr>pos_x = 2, pos_y = 26\<rparr>\<rparr>"

text \<open>A store of 2 by 4 metres without obstacles: one standard rack of optimizer.js fits.\<close>

definition tiny_layout :: layout where
  "tiny_layout =
     \<lparr>l_width = 2, l_height = 4, storeShape = None, constraints = [],
      entrance = \<lparr>pos_x = 19, pos_y = 1\<rparr>, loadingDock = \<lparr>pos_x = 1, pos_y = 29\<rparr>\<rparr>"

definition two_standard :: rack_counts where
  "two_standard = \<lparr>standardRacks = 2, highDensityRacks = 0, freezerRacks = 0, bulkRacks = 0\<rparr>"

definition one_standard :: rack_counts where
  "one_standard = \<lparr>standardRacks = 1, highDensityRacks = 0, freezerRacks = 0, bulkRacks = 0\<rparr>"

definition one_of_two_types :: rack_counts where
  "one_of_two_types = \<lparr>standardRacks = 1, highDensityRacks = 1, freezerRacks = 0, bulkRacks = 0\<rparr>"

definition placed_rack :: "optimizer \<Rightarrow> rack_type \<Rightarrow> nat \<Rightarrow> real \<Rightarrow> real \<Rightarrow> rack" where
  "placed_rack this t n x y = (new_rack this t n)\<lparr>position := Some \<lparr>pos_x = x, pos_y = y\<rparr>\<rparr>"

text \<open>The 40 by 30 store without obstacles.\<close>

definition open_layout :: layout where
  "open_layout = demo_layout\<lparr>constraints := []\<rparr>"

text \<open>Two sources of draws: every draw 0, and every draw one half.\<close>

definition zero_draws :: rng where
  "zero_draws = (\<lambda>n. 0)"

definition half_draws :: rng where
  "half_draws = (\<lambda>n. 1/2)"

text \<open>A request to optimizer.js for a store of width 0.\<close>

definition zero_width_config :: config where
  "zero_width_config =
     \<lparr>standardRacks = 1, highDensityRacks = 0, freezerRacks = 0, bulkRacks = 0,
      storeWidth = 0, storeHeight = 30,
      officeConstraint = False, exitConstraint = False, utilityConstraint = False,
      pillarConstraint = False\<rparr>"

section \<open>The grid scan as a first-fit search\<close>

text \<open>
  Following the words of the specification: the candidate positions are the grid cells
  \<open>(i * step, j * step)\<close>, scanned with \<open>j\<close> running fastest, up to the attempt cap, and a
  rack goes to the first of them that passes the validator against the racks placed
  before it. These two definitions are compared with the loops of \<open>placeRacks\<close>.
\<close>

definition cells_in_scan_order :: "optimizer \<Rightarrow> layout \<Rightarrow> position list" where
  "cells_in_scan_order this l =
     take maxAttempts
       (concat (map (\<lambda>i. map (\<lambda>j. grid_position this i j)
                              [0 .. \<lfloor>l_height l / gridStep this\<rfloor> - 1])
                    [0 .. \<lfloor>l_width l / gridStep this\<rfloor> - 1]))"

definition first_valid_cell :: "optimizer \<Rightarrow> layout \<Rightarrow> rack \<Rightarrow> rack list \<Rightarrow> position option" where
  "first_valid_cell this l r placedRacks =
     find (\<lambda>p. isValidPlacement this r p l placedRacks) (cells_in_scan_order this l)"

text \<open>The cells of the columns from \<open>i\<close> on, before the cap.\<close>

definition cells_from :: "optimizer \<Rightarrow> int \<Rightarrow> int \<Rightarrow> int \<Rightarrow> position list" where
  "cells_from this gridX gridY i =
     concat (map (\<lambda>i. map (\<lambda>j. grid_position this i j) [0 .. gridY - 1]) [i .. gridX - 1])"

section \<open>Verification\<close>

subsection \<open>Square roots at concrete numbers\<close>

lemma sqrt_less_iff_sq: "0 \<le> b \<Longrightarrow> (sqrt a < b) = (a < b\<^sup>2)"
  by (metis real_sqrt_less_iff real_sqrt_abs abs_of_nonneg)

lemma sqrt_times_less_iff_sq:
  assumes "0 < c" "0 \<le> b"
  shows "(sqrt a * c < b) = (a * c\<^sup>2 < b\<^sup>2)"
proof -
  have "sqrt a * c = sqrt (a * c\<^sup>2)"
    using assms(1) by (simp add: real_sqrt_mult)
  then show ?thesis using assms(2) by (simp add: sqrt_less_iff_sq)
qed

lemma sqrt_eq_iff_sq: "0 \<le> b \<Longrightarrow> (sqrt a = b) = (a = b\<^sup>2)"
  by (metis real_sqrt_eq_iff real_sqrt_abs abs_of_nonneg)

lemma sqrt_times_eq_iff_sq:
  assumes "0 < c" "0 \<le> b"
  shows "(sqrt a * c = b) = (a * c\<^sup>2 = b\<^sup>2)"
proof -
  have "sqrt a * c = sqrt (a * c\<^sup>2)"
    using assms(1) by (simp add: real_sqrt_mult)
  then show ?thesis using assms(2) by (simp add: sqrt_eq_iff_sq)
qed

subsection \<open>The validator\<close>

lemma hits_rack_filter:
  "hits_rack r p (filter (\<lambda>x. position x \<noteq> None) L) = hits_rack r p L"
  by (induction L) (auto simp: hits_rack_def split: option.splits)

lemma hasAdequateAisles_filter:
  "hasAdequateAisles this r p (filter (\<lambda>x. position x \<noteq> None) L) = hasAdequateAisles this r p L"
  by (induction L) (auto split: option.splits)

lemma hasAdequateAisles_False_iff:
  "(\<not> hasAdequateAisles this r p placed) \<longleftrightarrow>
   (\<exists>other \<in> set placed. \<exists>q. position other = Some q \<and>
       calculateDistance (rack_center r p) (rack_center other q) < minRequiredDistance this r other)"
  by (induction placed) (auto split: option.splits)

lemma hasAdequateAisles_img_False_iff:
  "(\<not> hasAdequateAisles_img this r p placed) \<longleftrightarrow>
   (\<exists>other \<in> set placed. \<exists>q. position other = Some q \<and>
       calculateDistance p q < minRequiredDistance this r other)"
  by (induction placed) (auto split: option.splits simp: calculateDistance_def)

subsection \<open>Grid placement keeps the placed racks compatible\<close>


lemma rectanglesOverlap_sym: "rectanglesOverlap p d q e = rectanglesOverlap q e p d"
  by (auto simp: rectanglesOverlap_def)

lemma calculateDistance_sym: "calculateDistance p q = calculateDistance q p"
  by (simp add: calculateDistance_def power2_commute)

lemma minRequiredDistance_sym: "minRequiredDistance this a b = minRequiredDistance this b a"
  by (simp add: minRequiredDistance_def)

lemma racks_compatible_sym: "racks_compatible this a b = racks_compatible this b a"
  by (cases "position a"; cases "position b")
     (simp_all add: racks_compatible_def rectanglesOverlap_sym [of _ "rack_dims a"]
        calculateDistance_sym [of "rack_center a _"] minRequiredDistance_sym [of this a])

lemma scan_column_valid:
  "scan_column this r l placed gridY i j attempts = (Some p, a) \<Longrightarrow>
   isValidPlacement this r p l placed"
proof (induction this r l placed gridY i j attempts rule: scan_column.induct)
  case (1 this r l placedRacks gridY i j attempts)
  then show ?case
    by (subst (asm) (2) scan_column.simps) (auto split: if_splits)
qed

lemma scan_grid_valid:
  "scan_grid this r l placed gridX gridY i attempts = Some p \<Longrightarrow>
   isValidPlacement this r p l placed"
proof (induction this r l placed gridX gridY i attempts rule: scan_grid.induct)
  case (1 this r l placedRacks gridX gridY i attempts)
  show ?case
  proof (cases "i < gridX \<and> attempts < maxAttempts")
    case True
    obtain res a where sc: "scan_column this r l placedRacks gridY i 0 attempts = (res, a)"
      by (cases "scan_column this r l placedRacks gridY i 0 attempts")
    show ?thesis
    proof (cases res)
      case None
      with True sc "1.prems" have "scan_grid this r l placedRacks gridX gridY (i + 1) a = Some p"
        by (subst (asm) scan_grid.simps) simp
      with "1.IH" True sc None show ?thesis by simp
    next
      case (Some p')
      with True sc "1.prems" have "p' = p"
        by (subst (asm) scan_grid.simps) simp
      with sc Some show ?thesis using scan_column_valid by blast
    qed
  next
    case False
    with "1.prems" show ?thesis by (subst (asm) scan_grid.simps) simp
  qed
qed

lemma isValidPlacement_iff:
  "isValidPlacement this r p l placed \<longleftrightarrow>
     \<not> out_of_bounds r p l \<and>
     (case storeShape l of None \<Rightarrow> True | Some shape \<Rightarrow> isRackInStoreShape r p shape) \<and>
     \<not> hits_constraint r p l \<and> \<not> hits_rack r p placed \<and> hasAdequateAisles this r p placed"
  by (simp add: isValidPlacement_def split: option.split)

lemma valid_compatible:
  assumes v: "isValidPlacement this r p l placed"
    and q: "x \<in> set placed" "position x = Some q"
  shows "racks_compatible this (r\<lparr>position := Some p\<rparr>) x"
proof -
  from v have hr: "\<not> hits_rack r p placed" and ha: "hasAdequateAisles this r p placed"
    by (simp_all add: isValidPlacement_iff)
  from hr q have "\<not> rectanglesOverlap p (rack_dims r) q (rack_dims x)"
    by (auto simp: hits_rack_def list_ex_iff split: option.splits)
  moreover from ha q have
    "\<not> calculateDistance (rack_center r p) (rack_center x q) < minRequiredDistance this r x"
    by (induction placed) (auto split: option.splits if_splits)
  ultimately show ?thesis
    using q by (simp add: racks_compatible_def rack_dims_def rack_center_def minRequiredDistance_def)
qed

lemma valid_clear:
  "isValidPlacement this r p l placed \<Longrightarrow> clear_of_constraints l (r\<lparr>position := Some p\<rparr>)"
  by (simp add: isValidPlacement_iff clear_of_constraints_def hits_constraint_def rack_dims_def
      list_ex_iff list_all_iff)

lemma placement_ok_snoc:
  assumes ok: "placement_ok this l placed"
    and pos: "\<forall>x \<in> set placed. position x \<noteq> None"
    and v: "isValidPlacement this r p l placed"
  shows "placement_ok this l (placed @ [r\<lparr>position := Some p\<rparr>])"
proof -
  let ?r = "r\<lparr>position := Some p\<rparr>"
  have new: "racks_compatible this ?r x" if "x \<in> set placed" for x
    using valid_compatible[OF v that] pos that by auto
  have "racks_compatible this ((placed @ [?r]) ! i) ((placed @ [?r]) ! j)"
    if ij: "i < length (placed @ [?r])" "j < length (placed @ [?r])" "i \<noteq> j" for i j
  proof -
    consider "i < length placed" "j < length placed"
      | "i = length placed" "j < length placed"
      | "i < length placed" "j = length placed"
      using ij by (auto simp: less_Suc_eq)
    then show ?thesis
    proof cases
      case 1
      with ok ij show ?thesis by (simp add: placement_ok_def nth_append)
    next
      case 2
      then show ?thesis using new[of "placed ! j"] by (simp add: nth_append)
    next
      case 3
      then show ?thesis using new[of "placed ! i"] racks_compatible_sym[of this ?r]
        by (simp add: nth_append)
    qed
  qed
  moreover have "\<forall>x \<in> set (placed @ [?r]). clear_of_constraints l x"
    using ok valid_clear[OF v] by (auto simp: placement_ok_def)
  ultimately show ?thesis unfolding placement_ok_def by blast
qed

lemma place_each_ok:
  "placement_ok this l placed \<Longrightarrow> \<forall>x \<in> set placed. position x \<noteq> None \<Longrightarrow>
   placement_ok this l (place_each this l rs placed) \<and>
   (\<forall>x \<in> set (place_each this l rs placed). position x \<noteq> None)"
proof (induction rs arbitrary: placed)
  case Nil
  then show ?case by simp
next
  case (Cons r rs)
  let ?scan = "scan_grid this r l placed \<lfloor>l_width l / gridStep this\<rfloor> \<lfloor>l_height l / gridStep this\<rfloor> 0 0"
  show ?case
  proof (cases ?scan)
    case None
    then have eq: "place_each this l (r # rs) placed = place_each this l rs placed"
      by simp
    show ?thesis unfolding eq by (rule Cons.IH [OF Cons.prems])
  next
    case (Some p)
    then have eq: "place_each this l (r # rs) placed =
        place_each this l rs (placed @ [r\<lparr>position := Some p\<rparr>])"
      by simp
    from Some have v: "isValidPlacement this r p l placed" by (rule scan_grid_valid)
    have ok: "placement_ok this l (placed @ [r\<lparr>position := Some p\<rparr>])"
      using placement_ok_snoc [OF Cons.prems(1) Cons.prems(2) v] .
    have pos: "\<forall>x \<in> set (placed @ [r\<lparr>position := Some p\<rparr>]). position x \<noteq> None"
      using Cons.prems(2) by simp
    show ?thesis unfolding eq by (rule Cons.IH [OF ok pos])
  qed
qed

lemma racks_solution_of: "racks (solution_of this rs l) = rs"
  by (simp add: solution_of_def Let_def)

lemma racks_placeRacks: "racks (placeRacks this rs l) = place_each this l rs []"
  by (simp add: placeRacks_def racks_solution_of)

lemma placement_ok_Nil: "placement_ok this l []"
  by (simp add: placement_ok_def)

subsection \<open>The grid scan finds the first valid cell\<close>

lemma find_append_case:
  "find P (xs @ ys) = (case find P xs of Some x \<Rightarrow> Some x | None \<Rightarrow> find P ys)"
  by (induction xs) simp_all

lemma scan_column_find:
  "fst (scan_column this r l placed gridY i j attempts) =
     find (\<lambda>p. isValidPlacement this r p l placed)
       (take (maxAttempts - attempts) (map (\<lambda>j. grid_position this i j) [j .. gridY - 1])) \<and>
   (fst (scan_column this r l placed gridY i j attempts) = None \<longrightarrow>
      snd (scan_column this r l placed gridY i j attempts) =
        attempts + length (take (maxAttempts - attempts)
          (map (\<lambda>j. grid_position this i j) [j .. gridY - 1])))"
proof (induction this r l placed gridY i j attempts rule: scan_column.induct)
  case (1 this r l placedRacks gridY i j attempts)
  show ?case
  proof (cases "j < gridY \<and> attempts < maxAttempts")
    case False
    then show ?thesis
      by (subst (1 2 3) scan_column.simps) auto
  next
    case True
    then have up: "[j .. gridY - 1] = j # [j + 1 .. gridY - 1]"
      by (simp add: upto_rec1)
    obtain d where d: "maxAttempts - attempts = Suc d" and d': "maxAttempts - Suc attempts = d"
      using True by (cases "maxAttempts - attempts") auto
    show ?thesis
    proof (cases "isValidPlacement this r (grid_position this i j) l placedRacks")
      case v: True
      then show ?thesis using True
        by (subst (1 2 3) scan_column.simps) (simp add: up d)
    next
      case v: False
      have eq: "scan_column this r l placedRacks gridY i j attempts =
          scan_column this r l placedRacks gridY i (j + 1) (Suc attempts)"
        using True v by (subst scan_column.simps) simp
      show ?thesis
        unfolding eq using "1.IH" [OF True v] v by (simp add: up d d')
    qed
  qed
qed

lemma scan_grid_find:
  "scan_grid this r l placed gridX gridY i attempts =
     find (\<lambda>p. isValidPlacement this r p l placed)
       (take (maxAttempts - attempts) (cells_from this gridX gridY i))"
proof (induction this r l placed gridX gridY i attempts rule: scan_grid.induct)
  case (1 this r l placedRacks gridX gridY i attempts)
  let ?P = "\<lambda>p. isValidPlacement this r p l placedRacks"
  let ?col = "map (\<lambda>j. grid_position this i j) [0 .. gridY - 1]"
  show ?case
  proof (cases "i < gridX \<and> attempts < maxAttempts")
    case False
    then show ?thesis
      by (subst scan_grid.simps) (auto simp: cells_from_def)
  next
    case True
    then have up: "[i .. gridX - 1] = i # [i + 1 .. gridX - 1]"
      by (simp add: upto_rec1)
    have cells: "cells_from this gridX gridY i = ?col @ cells_from this gridX gridY (i + 1)"
      by (simp add: cells_from_def up)
    have tk: "take (maxAttempts - attempts) (cells_from this gridX gridY i) =
        take (maxAttempts - attempts) ?col @
        take (maxAttempts - attempts - length ?col) (cells_from this gridX gridY (i + 1))"
      by (simp add: cells)
    obtain res a where sc: "scan_column this r l placedRacks gridY i 0 attempts = (res, a)"
      by (cases "scan_column this r l placedRacks gridY i 0 attempts")
    from scan_column_find [of this r l placedRacks gridY i 0 attempts] sc have
      res: "res = find ?P (take (maxAttempts - attempts) ?col)" and
      a: "res = None \<longrightarrow> a = attempts + length (take (maxAttempts - attempts) ?col)"
      by simp_all
    show ?thesis
    proof (cases res)
      case (Some p)
      then have "scan_grid this r l placedRacks gridX gridY i attempts = Some p"
        using True sc by (subst scan_grid.simps) simp
      then show ?thesis using Some res by (simp add: tk find_append_case)
    next
      case None
      have eq: "scan_grid this r l placedRacks gridX gridY i attempts =
          scan_grid this r l placedRacks gridX gridY (i + 1) a"
        using True sc None by (subst scan_grid.simps) simp
      have ih: "scan_grid this r l placedRacks gridX gridY (i + 1) a =
          find ?P (take (maxAttempts - a) (cells_from this gridX gridY (i + 1)))"
        using "1.IH" [OF True sc [symmetric]] None by simp
      have a': "a = attempts + min (length ?col) (maxAttempts - attempts)"
        using a None by simp
      have "take (maxAttempts - a) (cells_from this gridX gridY (i + 1)) =
          take (maxAttempts - attempts - length ?col) (cells_from this gridX gridY (i + 1))"
      proof (cases "length ?col \<le> maxAttempts - attempts")
        case True
        then show ?thesis using a' by (simp add: min_def)
      next
        case False
        then have "maxAttempts - a = 0" "maxAttempts - attempts - length ?col = 0"
          using a' by (simp_all add: min_def)
        then show ?thesis by simp
      qed
      then show ?thesis
        unfolding eq ih using None res by (simp add: tk find_append_case)
    qed
  qed
qed

lemma scan_grid_first_valid_cell:
  "scan_grid this r l placed \<lfloor>l_width l / gridStep this\<rfloor> \<lfloor>l_height l / gridStep this\<rfloor> 0 0 =
     first_valid_cell this l r placed"
  by (simp add: scan_grid_find first_valid_cell_def cells_in_scan_order_def cells_from_def)

lemma place_each_append:
  "place_each this l (xs @ ys) placed = place_each this l ys (place_each this l xs placed)"
  by (induction xs arbitrary: placed) (simp_all split: option.split)

lemma place_each_prefix: "prefix placed (place_each this l rs placed)"
proof (induction rs arbitrary: placed)
  case Nil
  then show ?case by simp
next
  case (Cons r rs)
  let ?scan = "scan_grid this r l placed \<lfloor>l_width l / gridStep this\<rfloor> \<lfloor>l_height l / gridStep this\<rfloor> 0 0"
  show ?case
  proof (cases ?scan)
    case None
    then have eq: "place_each this l (r # rs) placed = place_each this l rs placed" by simp
    show ?thesis unfolding eq by (rule Cons.IH)
  next
    case (Some p)
    then have eq: "place_each this l (r # rs) placed =
        place_each this l rs (placed @ [r\<lparr>position := Some p\<rparr>])" by simp
    have "prefix (placed @ [r\<lparr>position := Some p\<rparr>])
        (place_each this l rs (placed @ [r\<lparr>position := Some p\<rparr>]))"
      by (rule Cons.IH)
    then show ?thesis unfolding eq using append_prefixD by blast
  qed
qed

lemma place_each_one:
  "place_each this l [r] placed =
     placed @ (case first_valid_cell this l r placed of
                 Some p \<Rightarrow> [r\<lparr>position := Some p\<rparr>] | None \<Rightarrow> [])"
  by (simp add: scan_grid_first_valid_cell split: option.split)

lemma place_each_snoc:
  "place_each this l (before @ [r]) [] =
     place_each this l before [] @
       (case first_valid_cell this l r (place_each this l before []) of
          Some p \<Rightarrow> [r\<lparr>position := Some p\<rparr>] | None \<Rightarrow> [])"
  by (simp only: place_each_append place_each_one)

lemma place_each_placed_member:
  assumes "first_valid_cell this l r (place_each this l before []) = Some p"
  shows "r\<lparr>position := Some p\<rparr> \<in> set (place_each this l (before @ r # after) [])"
proof -
  have "before @ r # after = (before @ [r]) @ after" by simp
  then have "place_each this l (before @ r # after) [] =
      place_each this l after (place_each this l (before @ [r]) [])"
    by (simp only: place_each_append)
  moreover have "place_each this l (before @ [r]) [] =
      place_each this l before [] @ [r\<lparr>position := Some p\<rparr>]"
    using assms by (simp add: place_each_snoc)
  ultimately have "prefix (place_each this l before [] @ [r\<lparr>position := Some p\<rparr>])
      (place_each this l (before @ r # after) [])"
    using place_each_prefix [of "place_each this l before [] @ [r\<lparr>position := Some p\<rparr>]" this l after]
    by simp
  then show ?thesis using set_mono_prefix by fastforce
qed

lemma place_each_unplaced_dropped:
  assumes "first_valid_cell this l r (place_each this l before []) = None"
  shows "place_each this l (before @ r # after) [] = place_each this l (before @ after) []"
proof -
  have "place_each this l (r # after) (place_each this l before []) =
      place_each this l after (place_each this l before [])"
    using assms by (simp add: scan_grid_first_valid_cell)
  then show ?thesis by (simp only: place_each_append)
qed

lemma place_each_subseq:
  "subseq (map unplaced placed) (map unplaced done) \<Longrightarrow>
   subseq (map unplaced (place_each this l rs placed)) (map unplaced (done @ rs))"
proof (induction rs arbitrary: placed "done")
  case Nil
  then show ?case by simp
next
  case (Cons r rs)
  let ?scan = "scan_grid this r l placed \<lfloor>l_width l / gridStep this\<rfloor> \<lfloor>l_height l / gridStep this\<rfloor> 0 0"
  have app: "done @ r # rs = (done @ [r]) @ rs" by simp
  show ?case
  proof (cases ?scan)
    case None
    then have eq: "place_each this l (r # rs) placed = place_each this l rs placed"
      by simp
    have "subseq (map unplaced placed) (map unplaced (done @ [r]))"
      using Cons.prems by (simp add: list_emb_prefix)
    then show ?thesis unfolding eq app by (rule Cons.IH)
  next
    case (Some p)
    then have eq: "place_each this l (r # rs) placed =
        place_each this l rs (placed @ [r\<lparr>position := Some p\<rparr>])"
      by simp
    have u: "unplaced (r\<lparr>position := Some p\<rparr>) = unplaced r"
      by (simp add: unplaced_def)
    have "subseq (map unplaced (placed @ [r\<lparr>position := Some p\<rparr>])) (map unplaced (done @ [r]))"
      using Cons.prems by (simp add: u list_emb_append_mono)
    then show ?thesis unfolding eq app by (rule Cons.IH)
  qed
qed

lemma generate_type_eq:
  "generate_type this t count i (rs, k) =
     (rs @ map (new_rack this t) [k ..< k + nat (count - i)], k + nat (count - i))"
proof (induction this t count i "(rs, k)" arbitrary: rs k rule: generate_type.induct)
  case (1 this t count i rs ident)
  show ?case
  proof (cases "i < count")
    case True
    then have n: "nat (count - i) = Suc (nat (count - (i + 1)))" by simp
    from True "1.hyps" [OF True] show ?thesis
      by (subst generate_type.simps) (simp add: n upt_conv_Cons del: upt_Suc)
  next
    case False
    then show ?thesis by (subst generate_type.simps) simp
  qed
qed

lemma map2_replicate:
  "length xs = n \<Longrightarrow> map2 f (replicate n t) xs = map (f t) xs"
  by (induction xs arbitrary: n) auto

lemma upt_split4: "[1 ..< Suc (a + b + c + d)] =
   [1 ..< 1 + a] @ [1 + a ..< 1 + a + b] @ [1 + a + b ..< 1 + a + b + c] @
   [1 + a + b + c ..< 1 + a + b + c + d]"
proof -
  have 1: "[1 ..< 1 + a + b + c + d] = [1 ..< 1 + a + b + c] @ [1 + a + b + c ..< 1 + a + b + c + d]"
    by (rule upt_add_eq_append) simp
  have 2: "[1 ..< 1 + a + b + c] = [1 ..< 1 + a + b] @ [1 + a + b ..< 1 + a + b + c]"
    by (rule upt_add_eq_append) simp
  have 3: "[1 ..< 1 + a + b] = [1 ..< 1 + a] @ [1 + a ..< 1 + a + b]"
    by (rule upt_add_eq_append) simp
  have "Suc (a + b + c + d) = 1 + a + b + c + d" by simp
  then show ?thesis by (simp only: 1 2 3 append_assoc)
qed

lemma types_zip:
  "map2 f (replicate a t1 @ replicate b t2 @ replicate c t3 @ replicate d t4)
      [1 ..< Suc (a + b + c + d)] =
   map (f t1) [1 ..< 1 + a] @ map (f t2) [1 + a ..< 1 + a + b] @
   map (f t3) [1 + a + b ..< 1 + a + b + c] @ map (f t4) [1 + a + b + c ..< 1 + a + b + c + d]"
  unfolding upt_split4 by (simp add: zip_append map2_replicate del: upt_Suc)

lemma generateRacks_eq:
  "generateRacks this config =
     map2 (new_rack this) (requested_types config) [1 ..< Suc (length (requested_types config))]"
proof -
  let ?a = "nat (standardRacks config)" and ?b = "nat (highDensityRacks config)"
  let ?c = "nat (freezerRacks config)" and ?d = "nat (bulkRacks config)"
  have len: "length (requested_types config) = ?a + ?b + ?c + ?d"
    by (simp add: requested_types_def)
  have gen: "generateRacks this config =
      map (new_rack this Standard) [1 ..< 1 + ?a] @
      map (new_rack this HighDensity) [1 + ?a ..< 1 + ?a + ?b] @
      map (new_rack this Freezer) [1 + ?a + ?b ..< 1 + ?a + ?b + ?c] @
      map (new_rack this Bulk) [1 + ?a + ?b + ?c ..< 1 + ?a + ?b + ?c + ?d]"
    by (simp add: generateRacks_def generate_type_eq)
  show ?thesis
    unfolding len unfolding requested_types_def types_zip by (rule gen)
qed

subsection \<open>Runs on the example inputs\<close>

lemma string_of_nat_digit: "n < 10 \<Longrightarrow> string_of_nat n = [digit_char n]"
  by (simp add: string_of_nat.simps)

lemmas grid_eval = scan_grid.simps scan_column.simps isValidPlacement_def
  out_of_bounds_def hits_constraint_def hits_rack_def isRackInStoreShape_def isPointInStore_def
  rectanglesOverlap_def rack_dims_def grid_position_def maxAttempts_def
  calculateDistance_def rack_center_def minRequiredDistance_def sqrt_less_iff_sq
  sqrt_times_less_iff_sq

lemmas gen_eval = generateRacks_def generate_type.simps new_rack_def string_of_nat_digit
  digit_char_def

lemma demo_two:
  "racks (placeRacks enhanced_optimizer (generateRacks enhanced_optimizer two_standard) demo_layout) =
   [placed_rack enhanced_optimizer Standard 1 0 12, placed_rack enhanced_optimizer Standard 2 4 20]"
  by (simp add: racks_placeRacks gen_eval grid_eval placed_rack_def two_standard_def
      demo_layout_def enhanced_optimizer_def)

lemma tiny_two:
  "racks (placeRacks basic_optimizer (generateRacks basic_optimizer two_standard) tiny_layout) =
   [placed_rack basic_optimizer Standard 1 0 0]"
  by (simp add: racks_placeRacks gen_eval grid_eval placed_rack_def two_standard_def
      tiny_layout_def basic_optimizer_def)

lemma Math_random_zero: "Math_random zero_draws n = 0"
  by (simp add: Math_random_def zero_draws_def)

lemma Math_random_half: "Math_random half_draws n = 1/2"
  by (simp add: Math_random_def half_draws_def frac_def)

lemma mutate_demo:
  "fst (mutate enhanced_optimizer zero_draws 0
      [placed_rack enhanced_optimizer Standard 1 0 12, new_rack enhanced_optimizer Standard 2]
      open_layout) =
   [placed_rack enhanced_optimizer Standard 1 0 (19/2), new_rack enhanced_optimizer Standard 2]"
  by (simp add: mutate_def mutate_loop.simps Math_random_zero mutationRate_def
      mutated_position_def other_racks_def placed_rack_def new_rack_def open_layout_def
      demo_layout_def enhanced_optimizer_def isValidPlacement_def out_of_bounds_def
      hits_constraint_def hits_rack_def isRackInStoreShape_def isPointInStore_def
      rectanglesOverlap_def rack_dims_def Let_def)

lemma racks_solution_of_img: "racks (solution_of_img this rs l) = rs"
  by (simp add: solution_of_img_def Let_def)

lemmas img_eval = gridBasedOptimization_img_def racks_solution_of_img grid_attempts_img.simps
  random_grid_position_def isValidPlacement_img_def out_of_bounds_def hits_constraint_def
  hits_rack_def rectanglesOverlap_def rack_dims_def maxAttempts_def

lemma img_zero:
  "racks (gridBasedOptimization_img image_optimizer zero_draws 0
      (generateRacks image_optimizer one_standard) open_layout) =
   [placed_rack image_optimizer Standard 1 0 0]"
  by (simp add: img_eval gen_eval Math_random_zero one_standard_def open_layout_def
      demo_layout_def image_optimizer_def placed_rack_def)

lemma img_half:
  "racks (gridBasedOptimization_img image_optimizer half_draws 0
      (generateRacks image_optimizer one_standard) open_layout) =
   [placed_rack image_optimizer Standard 1 16 8]"
  by (simp add: img_eval gen_eval Math_random_half one_standard_def open_layout_def
      demo_layout_def image_optimizer_def placed_rack_def)

text \<open>
  The scenario of the specification: one standard rack of 4 by 8 in the open store of
  40 by 30 is placed at the first cell, and the efficiency is 32 / 1200.
\<close>

lemma scenario_one_standard:
  "racks (placeRacks enhanced_optimizer (generateRacks enhanced_optimizer one_standard) open_layout) =
     [placed_rack enhanced_optimizer Standard 1 0 0] \<and>
   m_layoutEfficiency (metrics (placeRacks enhanced_optimizer
     (generateRacks enhanced_optimizer one_standard) open_layout)) = Fin (32 / 1200)"
proof -
  have p: "place_each enhanced_optimizer open_layout
      (generateRacks enhanced_optimizer one_standard) [] =
      [placed_rack enhanced_optimizer Standard 1 0 0]"
    by (simp add: gen_eval grid_eval placed_rack_def one_standard_def open_layout_def
        demo_layout_def enhanced_optimizer_def)
  show ?thesis
    unfolding placeRacks_def p
    by (simp add: solution_of_def calculateScore_def Let_def jdiv_def total_rack_area_def
        calculateLayoutArea_def placed_rack_def new_rack_def open_layout_def demo_layout_def
        enhanced_optimizer_def)
qed

lemma first_cell_demo:
  "first_valid_cell enhanced_optimizer demo_layout (new_rack enhanced_optimizer Standard 1)
     (racks (placeRacks enhanced_optimizer [] demo_layout)) = Some \<lparr>pos_x = 0, pos_y = 12\<rparr>"
  unfolding scan_grid_first_valid_cell [symmetric]
  by (simp add: racks_placeRacks grid_eval new_rack_def demo_layout_def enhanced_optimizer_def)

lemma first_cell_tiny:
  "first_valid_cell basic_optimizer tiny_layout (new_rack basic_optimizer Standard 2)
     (racks (placeRacks basic_optimizer [new_rack basic_optimizer Standard 1] tiny_layout)) = None"
  unfolding scan_grid_first_valid_cell [symmetric]
  by (simp add: racks_placeRacks grid_eval new_rack_def tiny_layout_def basic_optimizer_def)


subsection \<open>Mutation changes positions only\<close>

lemma same_rack_moved_refl: "same_rack_moved a a"
  by (simp add: same_rack_moved_def)

lemma same_rack_moved_trans:
  "same_rack_moved a b \<Longrightarrow> same_rack_moved b c \<Longrightarrow> same_rack_moved a c"
  by (simp add: same_rack_moved_def)

lemma same_rack_moved_update:
  "position a = Some p \<Longrightarrow> same_rack_moved a (a\<lparr>position := Some q\<rparr>)"
  by (simp add: same_rack_moved_def)

lemma list_all2_same_refl: "list_all2 same_rack_moved xs xs"
  by (simp add: list_all2_refl same_rack_moved_refl)

lemma list_all2_same_trans:
  "list_all2 same_rack_moved xs ys \<Longrightarrow> list_all2 same_rack_moved ys zs \<Longrightarrow>
   list_all2 same_rack_moved xs zs"
  using list_all2_trans [of same_rack_moved same_rack_moved same_rack_moved xs ys zs]
    same_rack_moved_trans by blast

lemma list_all2_same_update:
  assumes "i < length xs" "position (xs ! i) = Some p"
  shows "list_all2 same_rack_moved xs (xs [i := (xs ! i)\<lparr>position := Some q\<rparr>])"
  using assms
  by (simp add: list_all2_conv_all_nth nth_list_update same_rack_moved_refl
      same_rack_moved_update)

lemma mutate_loop_frame:
  "list_all2 same_rack_moved mutated (fst (mutate_loop this draws n l mutated i))"
proof (induction this draws n l mutated i rule: mutate_loop.induct)
  case (1 this draws n l mutated i)
  let ?sel = "if Math_random draws n < mutationRate then position (mutated ! i) else None"
  show ?case
  proof (cases "i < length mutated")
    case False
    then show ?thesis
      by (subst mutate_loop.simps) (simp add: list_all2_same_refl)
  next
    case True
    show ?thesis
    proof (cases ?sel)
      case None
      have eq: "mutate_loop this draws n l mutated i =
          mutate_loop this draws (n + 1) l mutated (Suc i)"
        using True None by (subst mutate_loop.simps) simp
      show ?thesis unfolding eq by (rule "1.IH"(1) [OF True None])
    next
      case (Some p)
      then have pos: "position (mutated ! i) = Some p"
        by (simp split: if_splits)
      let ?q = "mutated_position draws (n + 1) (mutated ! i) p l"
      let ?v = "isValidPlacement this (mutated ! i) ?q l (other_racks mutated i)"
      let ?m = "mutated [i := (mutated ! i)\<lparr>position := Some ?q\<rparr>]"
      show ?thesis
      proof (cases ?v)
        case v: True
        have eq: "mutate_loop this draws n l mutated i =
            mutate_loop this draws (n + 3) l ?m (Suc i)"
          using True Some v by (subst mutate_loop.simps) simp
        have "list_all2 same_rack_moved mutated ?m"
          using True pos by (rule list_all2_same_update)
        moreover have "list_all2 same_rack_moved ?m
            (fst (mutate_loop this draws (n + 3) l ?m (Suc i)))"
          by (rule "1.IH"(2) [OF True Some v])
        ultimately show ?thesis unfolding eq by (rule list_all2_same_trans)
      next
        case v: False
        have eq: "mutate_loop this draws n l mutated i =
            mutate_loop this draws (n + 3) l mutated (Suc i)"
          using True Some v by (subst mutate_loop.simps) simp
        show ?thesis unfolding eq by (rule "1.IH"(3) [OF True Some v])
      qed
    qed
  qed
qed

subsection \<open>The grid placement does not read the positions of its input\<close>

lemma rack_center_position: "rack_center (r\<lparr>position := x\<rparr>) p = rack_center r p"
  by (simp add: rack_center_def)

lemma minRequiredDistance_position:
  "minRequiredDistance this (r\<lparr>position := x\<rparr>) a = minRequiredDistance this r a"
  by (simp add: minRequiredDistance_def)

lemma rack_dims_position: "rack_dims (r\<lparr>position := x\<rparr>) = rack_dims r"
  by (simp add: rack_dims_def)

lemma hasAdequateAisles_position:
  "hasAdequateAisles this (r\<lparr>position := x\<rparr>) p placed = hasAdequateAisles this r p placed"
  by (induction placed)
     (simp_all add: rack_center_position minRequiredDistance_position split: option.split)

lemma isValidPlacement_position:
  "isValidPlacement this (r\<lparr>position := x\<rparr>) p l placed = isValidPlacement this r p l placed"
  by (simp add: isValidPlacement_iff out_of_bounds_def isRackInStoreShape_def
      hits_constraint_def hits_rack_def rack_dims_position hasAdequateAisles_position
      split: option.split)

lemma scan_column_position:
  "scan_column this (r\<lparr>position := x\<rparr>) l placed gridY i j attempts =
   scan_column this r l placed gridY i j attempts"
proof (induction this r l placed gridY i j attempts rule: scan_column.induct)
  case (1 this r l placedRacks gridY i j attempts)
  show ?case
    using "1.IH"
    by (subst scan_column.simps, subst (2) scan_column.simps)
       (simp add: isValidPlacement_position)
qed

lemma scan_grid_position:
  "scan_grid this (r\<lparr>position := x\<rparr>) l placed gridX gridY i attempts =
   scan_grid this r l placed gridX gridY i attempts"
proof (induction this r l placed gridX gridY i attempts rule: scan_grid.induct)
  case (1 this r l placedRacks gridX gridY i attempts)
  show ?case
    using "1.IH"
    by (subst scan_grid.simps, subst (2) scan_grid.simps)
       (auto simp add: scan_column_position split: prod.splits option.splits)
qed

lemma unplaced_eq_update:
  assumes "unplaced r = unplaced r'"
  shows "r' = r\<lparr>position := position r'\<rparr>"
proof -
  have "r\<lparr>position := position r'\<rparr> = (unplaced r)\<lparr>position := position r'\<rparr>"
    by (simp add: unplaced_def)
  also have "\<dots> = (unplaced r')\<lparr>position := position r'\<rparr>"
    by (simp only: assms)
  also have "\<dots> = r'"
    by (simp add: unplaced_def)
  finally show ?thesis by simp
qed

lemma place_each_unplaced:
  "map unplaced rs = map unplaced rs' \<Longrightarrow> place_each this l rs placed = place_each this l rs' placed"
proof (induction rs arbitrary: rs' placed)
  case Nil
  then show ?case by simp
next
  case (Cons r rs)
  then obtain r' rest where rs': "rs' = r' # rest" and u: "unplaced r = unplaced r'"
    and m: "map unplaced rs = map unplaced rest"
    by (cases rs') auto
  let ?x = "position r'"
  have r': "r' = r\<lparr>position := ?x\<rparr>" using u by (rule unplaced_eq_update)
  have scan: "scan_grid this r' l placed gx gy 0 0 = scan_grid this r l placed gx gy 0 0" for gx gy
    by (subst r') (rule scan_grid_position)
  have upd: "r'\<lparr>position := Some p\<rparr> = r\<lparr>position := Some p\<rparr>" for p
    by (subst r') simp
  show ?case
    unfolding rs' 
    by (simp only: place_each.simps scan upd Cons.IH [OF m])
qed

subsection \<open>Layouts of width or height 0\<close>

lemma degenerate_out_of_bounds:
  "l_width l = 0 \<or> l_height l = 0 \<Longrightarrow> 0 < width r \<Longrightarrow> 0 < height r \<Longrightarrow> out_of_bounds r p l"
  unfolding out_of_bounds_def by linarith

lemma degenerate_invalid:
  "l_width l = 0 \<or> l_height l = 0 \<Longrightarrow> 0 < width r \<Longrightarrow> 0 < height r \<Longrightarrow>
   \<not> isValidPlacement this r p l placed"
  by (simp add: isValidPlacement_iff degenerate_out_of_bounds)

lemma scan_column_invalid:
  "(\<And>p. \<not> isValidPlacement this r p l placed) \<Longrightarrow>
   fst (scan_column this r l placed gridY i j attempts) = None"
proof (induction this r l placed gridY i j attempts rule: scan_column.induct)
  case (1 this r l placedRacks gridY i j attempts)
  then show ?case
    by (subst scan_column.simps) simp
qed

lemma scan_grid_invalid:
  "(\<And>p. \<not> isValidPlacement this r p l placed) \<Longrightarrow>
   scan_grid this r l placed gridX gridY i attempts = None"
proof (induction this r l placed gridX gridY i attempts rule: scan_grid.induct)
  case (1 this r l placedRacks gridX gridY i attempts)
  show ?case
  proof (cases "i < gridX \<and> attempts < maxAttempts")
    case False
    then show ?thesis by (subst scan_grid.simps) auto
  next
    case True
    obtain a where sc: "scan_column this r l placedRacks gridY i 0 attempts = (None, a)"
      using scan_column_invalid [OF "1.prems", of gridY i 0 attempts]
      by (cases "scan_column this r l placedRacks gridY i 0 attempts") auto
    have "scan_grid this r l placedRacks gridX gridY (i + 1) a = None"
      using "1.IH" [OF True sc [symmetric] refl] "1.prems" by simp
    then show ?thesis using True sc by (subst scan_grid.simps) simp
  qed
qed

lemma place_each_degenerate:
  "l_width l = 0 \<or> l_height l = 0 \<Longrightarrow> list_all (\<lambda>r. 0 < width r \<and> 0 < height r) rs \<Longrightarrow>
   place_each this l rs placed = placed"
proof (induction rs)
  case Nil
  then show ?case by simp
next
  case (Cons r rs)
  then have "\<not> isValidPlacement this r p l placed" for p
    by (simp add: degenerate_invalid)
  then have "scan_grid this r l placed gx gy 0 0 = None" for gx gy
    by (rule scan_grid_invalid)
  then show ?case using Cons by simp
qed

lemma positive_specs_basic: "positive_specs basic_optimizer"
  by (simp add: positive_specs_def basic_optimizer_def)

lemma positive_specs_enhanced: "positive_specs enhanced_optimizer"
  by (simp add: positive_specs_def enhanced_optimizer_def)

lemma new_rack_positive:
  "positive_specs this \<Longrightarrow> 0 < width (new_rack this t k) \<and> 0 < height (new_rack this t k)"
  by (cases t) (simp_all add: positive_specs_def new_rack_def)

lemma generateRacks_positive:
  assumes "positive_specs this"
  shows "list_all (\<lambda>r. 0 < width r \<and> 0 < height r) (generateRacks this config)"
proof -
  have "\<forall>r \<in> set (map2 (new_rack this) ts ks). 0 < width r \<and> 0 < height r" for ts ks
    using new_rack_positive [OF assms] by (auto simp: set_zip)
  then show ?thesis
    by (simp only: generateRacks_eq list_all_iff)
qed

lemma solution_of_Nil:
  "solution_of this [] l =
     \<lparr>racks = [], score = Fin 0,
      metrics = \<lparr>totalRacks = 0, totalCapacity = 0, avgDistanceToEntrance = 0,
        avgDistanceToDock = 0, areaUtilization = jdiv 0 (calculateLayoutArea l),
        m_layoutEfficiency = Fin 0, m_accessibility = Fin 0, m_workflow = 0\<rparr>\<rparr>"
  by (simp add: solution_of_def calculateScore_def calculateAverageDistance_def
      total_rack_area_def)

lemma placeRacks_degenerate:
  assumes "positive_specs this" "l_width l = 0 \<or> l_height l = 0"
  shows "placeRacks this (generateRacks this config) l = solution_of this [] l"
proof -
  have "place_each this l (generateRacks this config) [] = []"
    using assms(2) generateRacks_positive [OF assms(1)] by (rule place_each_degenerate)
  then show ?thesis by (simp only: placeRacks_def)
qed

subsection \<open>The total score\<close>















lemma clamp_PInf: "jmin (Fin 100) (jmax (Fin 0) PInf) = Fin 100"
  by simp


subsection \<open>The genetic algorithm on an empty rack list\<close>

lemma score_evaluate_Nil: "score (evaluateIndividual this [] l) = Fin 0"
  by (simp add: evaluateIndividual_def solution_of_Nil)

lemma createRandomIndividual_Nil: "createRandomIndividual this draws n [] l = ([], n)"
  by (simp add: createRandomIndividual_def)

lemma population_loop_Nil:
  "population_loop this draws n [] l i population =
     (population @ replicate (populationSize - i) [], n)"
proof (induction this draws n "[] :: rack list" l i population rule: population_loop.induct)
  case (1 this draws n l i population)
  show ?case
  proof (cases "i < populationSize")
    case True
    then have s: "populationSize - i = Suc (populationSize - Suc i)" by simp
    from True "1.hyps" [OF True createRandomIndividual_Nil [symmetric]] show ?thesis
      by (subst population_loop.simps) (simp add: createRandomIndividual_Nil s)
  next
    case False
    then show ?thesis by (subst population_loop.simps) simp
  qed
qed

lemma evaluate_population_Nil:
  "evaluate_population this l (replicate k []) (None, Fin 0) =
     (replicate k (empty_evaluated this l), (None, Fin 0))"
  by (induction k) (simp_all add: Let_def score_evaluate_Nil empty_evaluated_def)

lemma by_fitness_empty: "by_fitness (empty_evaluated this l) (empty_evaluated this l) = Fin 0"
  by (simp add: by_fitness_def empty_evaluated_def jsub_def)

lemma insert_sorted_replicate:
  "insert_sorted by_fitness (empty_evaluated this l) (replicate k (empty_evaluated this l)) =
     replicate (Suc k) (empty_evaluated this l)"
  by (cases k) (simp_all add: by_fitness_empty)

lemma js_sort_replicate:
  "js_sort by_fitness (replicate k (empty_evaluated this l)) = replicate k (empty_evaluated this l)"
proof -
  have "foldr (insert_sorted by_fitness) (replicate k (empty_evaluated this l)) [] =
      replicate k (empty_evaluated this l)"
  proof (induction k)
    case 0
    then show ?case by simp
  next
    case (Suc k)
    then show ?case by (simp only: replicate_Suc foldr.simps o_apply insert_sorted_replicate)
  qed
  then show ?thesis by (simp only: js_sort_def)
qed

lemma eliteCount_le: "eliteCount \<le> populationSize"
  by (simp add: eliteCount_def populationSize_def)

lemma elite_loop_replicate:
  "eliteCount \<le> k \<Longrightarrow>
   elite_loop (replicate k (empty_evaluated this l)) i nextGeneration =
     Inr (nextGeneration @ replicate (eliteCount - i) [])"
proof (induction "replicate k (empty_evaluated this l)" i nextGeneration rule: elite_loop.induct)
  case (1 i nextGeneration)
  show ?case
  proof (cases "i < eliteCount")
    case True
    then have ik: "i < k" using "1.prems" by simp
    have s: "eliteCount - i = Suc (eliteCount - Suc i)" using True by simp
    have "elite_loop (replicate k (empty_evaluated this l)) (Suc i)
        (nextGeneration @ [ev_individual (replicate k (empty_evaluated this l) ! i)]) =
      Inr ((nextGeneration @ [ev_individual (replicate k (empty_evaluated this l) ! i)]) @
        replicate (eliteCount - Suc i) [])"
      using True ik "1.prems" by (intro "1.hyps") simp_all
    then show ?thesis using True ik
      by (subst elite_loop.simps) (simp add: s empty_evaluated_def)
  next
    case False
    then show ?thesis by (subst elite_loop.simps) simp
  qed
qed

lemma Math_random_range: "0 \<le> Math_random draws n \<and> Math_random draws n < 1"
  by (simp add: Math_random_def frac_lt_1)

lemma pick_index_less:
  assumes "0 < k"
  shows "nat \<lfloor>Math_random draws n * real k\<rfloor> < k"
proof -
  have "Math_random draws n * real k < real k"
    using Math_random_range [of draws n] assms by simp
  then have "\<lfloor>Math_random draws n * real k\<rfloor> < int k"
    by (simp add: floor_less_iff)
  then show ?thesis using assms by linarith
qed

lemma tournament_pick_replicate:
  "0 < k \<Longrightarrow> tournament_pick draws n (replicate k x) = x"
  by (simp add: tournament_pick_def pick_index_less)

lemma tournamentSelection_replicate:
  "0 < k \<Longrightarrow> tournamentSelection draws n (replicate k (empty_evaluated this l)) = Inr []"
proof -
  assume k: "0 < k"
  have "js_sort by_fitness (replicate 3 (empty_evaluated this l)) =
      replicate 3 (empty_evaluated this l)"
    by (rule js_sort_replicate)
  then have "hd (js_sort by_fitness
      [empty_evaluated this l, empty_evaluated this l, empty_evaluated this l]) =
      empty_evaluated this l"
    by (simp add: numeral_3_eq_3)
  then show ?thesis using k
    by (simp add: tournamentSelection_def tournament_pick_replicate empty_evaluated_def)
qed

lemma crossover_Nil: "crossover draws n [] parent2 = []"
  by (simp add: crossover_def)

lemma mutate_Nil: "mutate this draws n [] l = ([], n)"
  by (simp add: mutate_def mutate_loop.simps)

lemma offspring_loop_replicate:
  "j \<le> populationSize \<Longrightarrow>
   \<exists>n'. offspring_loop this draws n l (replicate populationSize (empty_evaluated this l))
          (replicate j []) = Inr (replicate populationSize [], n')"
proof (induction "populationSize - j" arbitrary: j n)
  case 0
  then have "j = populationSize" by simp
  then show ?case by (subst offspring_loop.simps) simp
next
  case (Suc d)
  then have lt: "j < populationSize" and d: "d = populationSize - Suc j" and le: "Suc j \<le> populationSize"
    by simp_all
  have pos: "0 < populationSize" using lt by simp
  obtain n' where n': "offspring_loop this draws (n + 7) l
      (replicate populationSize (empty_evaluated this l)) (replicate (Suc j) []) =
      Inr (replicate populationSize [], n')"
    using Suc.hyps(1) [OF d le] by blast
  have "offspring_loop this draws n l (replicate populationSize (empty_evaluated this l))
      (replicate j []) =
    offspring_loop this draws (n + 7) l (replicate populationSize (empty_evaluated this l))
      (replicate (Suc j) [])"
    using lt
    by (subst offspring_loop.simps)
       (simp add: tournamentSelection_replicate [OF pos] crossover_Nil mutate_Nil
          replicate_append_same)
  then show ?case using n' by simp
qed

lemma generation_loop_Nil:
  "generation_loop this draws n l generation (replicate populationSize []) (None, Fin 0) = Inr None"
proof (induction "generations - generation" arbitrary: generation n)
  case 0
  then show ?case by (subst generation_loop.simps) simp
next
  case (Suc d)
  then have lt: "generation < generations" and d: "d = generations - Suc generation"
    by simp_all
  let ?evs = "replicate populationSize (empty_evaluated this l)"
  have elite: "elite_loop ?evs 0 [] = Inr (replicate eliteCount [])"
    using elite_loop_replicate [OF eliteCount_le, of this l 0 "[]"] by simp
  obtain n' where off: "offspring_loop this draws n l ?evs (replicate eliteCount []) =
      Inr (replicate populationSize [], n')"
    using offspring_loop_replicate [OF eliteCount_le] by blast
  have "generation_loop this draws n l generation (replicate populationSize []) (None, Fin 0) =
      generation_loop this draws n' l (Suc generation) (replicate populationSize []) (None, Fin 0)"
    using lt
    by (subst generation_loop.simps)
       (simp add: evaluate_population_Nil js_sort_replicate elite off)
  then show ?case using Suc.hyps(1) [OF d] by simp
qed

subsection \<open>The genetic algorithm always returns, and what it returns\<close>

text \<open>
  The run never raises and never loops: the population keeps its size, so the elite
  loop and the tournaments find their entries. The score of the returned solution, or
  the initial 0 when \<open>null\<close> is returned, is not exceeded by the fitness of any
  candidate of the initial population.
\<close>

lemma jgt_not_NaN: "jgt a b \<Longrightarrow> a \<noteq> NaN \<and> b \<noteq> NaN"
  by (cases a; cases b) simp_all

lemma not_jgt_mono: "\<not> jgt x b \<Longrightarrow> at_least b' b \<Longrightarrow> \<not> jgt x b'"
  unfolding at_least_def by (cases x; cases b; cases b') auto

lemma at_least_refl: "at_least b b"
  by (simp add: at_least_def)

lemma at_least_trans: "at_least b' b \<Longrightarrow> at_least b'' b' \<Longrightarrow> at_least b'' b"
  unfolding at_least_def by (cases b; cases b'; cases b'') auto

lemma evaluate_population_best:
  "best_inv best \<Longrightarrow>
   best_inv (snd (evaluate_population this l population best)) \<and>
   at_least (snd (snd (evaluate_population this l population best))) (snd best) \<and>
   (\<forall>ind \<in> set population.
      \<not> jgt (score (evaluateIndividual this ind l))
            (snd (snd (evaluate_population this l population best)))) \<and>
   length (fst (evaluate_population this l population best)) = length population"
proof (induction population arbitrary: best)
  case Nil
  then show ?case by (simp add: at_least_refl)
next
  case (Cons ind rest)
  let ?sol = "evaluateIndividual this ind l"
  let ?best' = "if jgt (score ?sol) (snd best) then (Some ?sol, score ?sol) else best"
  have inv': "best_inv ?best'"
    using Cons.prems jgt_not_NaN [of "score ?sol" "snd best"] by (simp add: best_inv_def)
  have up: "at_least (snd ?best') (snd best)"
    by (simp add: at_least_def)
  have here: "\<not> jgt (score ?sol) (snd ?best')"
    by (cases "score ?sol") simp_all
  let ?res = "evaluate_population this l rest ?best'"
  have eq: "evaluate_population this l (ind # rest) best =
      (\<lparr>ev_individual = ind, fitness = score ?sol, ev_solution = ?sol\<rparr> # fst ?res, snd ?res)"
    by (simp add: Let_def)
  from Cons.IH [OF inv'] have
    i1: "best_inv (snd ?res)" and
    i2: "at_least (snd (snd ?res)) (snd ?best')" and
    i3: "\<forall>x \<in> set rest. \<not> jgt (score (evaluateIndividual this x l)) (snd (snd ?res))" and
    i4: "length (fst ?res) = length rest"
    by blast+
  have "at_least (snd (snd ?res)) (snd best)"
    using up i2 by (rule at_least_trans)
  moreover have "\<not> jgt (score ?sol) (snd (snd ?res))"
    using here i2 by (rule not_jgt_mono)
  ultimately show ?case
    unfolding eq using i1 i3 i4 by simp
qed

lemma length_insert_sorted: "length (insert_sorted cmp a bs) = Suc (length bs)"
  by (induction bs) simp_all

lemma length_js_sort: "length (js_sort cmp xs) = length xs"
  unfolding js_sort_def by (induction xs) (simp_all add: length_insert_sorted)

lemma elite_loop_total:
  "eliteCount \<le> length evs \<Longrightarrow>
   \<exists>elite. elite_loop evs i nextGeneration = Inr elite \<and>
      length elite = length nextGeneration + (eliteCount - i)"
proof (induction evs i nextGeneration rule: elite_loop.induct)
  case (1 evs i nextGeneration)
  show ?case
  proof (cases "i < eliteCount")
    case True
    then have il: "i < length evs" using "1.prems" by simp
    obtain elite where e: "elite_loop evs (Suc i) (nextGeneration @ [ev_individual (evs ! i)]) = Inr elite"
      and len: "length elite = length (nextGeneration @ [ev_individual (evs ! i)]) + (eliteCount - Suc i)"
      using "1.IH" [OF True il "1.prems"] by blast
    have "elite_loop evs i nextGeneration = Inr elite"
      using True il e by (subst elite_loop.simps) simp
    then show ?thesis using len True by simp
  next
    case False
    then show ?thesis by (subst elite_loop.simps) simp
  qed
qed

lemma tournamentSelection_total:
  "evs \<noteq> [] \<Longrightarrow> \<exists>parent. tournamentSelection draws n evs = Inr parent"
  by (simp add: tournamentSelection_def)

lemma offspring_loop_total:
  "evs \<noteq> [] \<Longrightarrow> length nextGeneration \<le> populationSize \<Longrightarrow>
   \<exists>ng n'. offspring_loop this draws n l evs nextGeneration = Inr (ng, n') \<and>
      length ng = populationSize"
proof (induction "populationSize - length nextGeneration" arbitrary: nextGeneration n)
  case 0
  then have "length nextGeneration = populationSize" by simp
  then show ?case by (subst offspring_loop.simps) simp
next
  case (Suc d)
  then have lt: "length nextGeneration < populationSize" by simp
  obtain parent1 where p1: "tournamentSelection draws n evs = Inr parent1"
    using tournamentSelection_total [OF Suc.prems(1)] by blast
  obtain parent2 where p2: "tournamentSelection draws (n + 3) evs = Inr parent2"
    using tournamentSelection_total [OF Suc.prems(1)] by blast
  let ?m = "mutate this draws (n + 7) (crossover draws (n + 6) parent1 parent2) l"
  have d: "d = populationSize - length (nextGeneration @ [fst ?m])"
    using Suc.hyps(2) by simp
  have le: "length (nextGeneration @ [fst ?m]) \<le> populationSize"
    using lt by simp
  obtain ng n' where r: "offspring_loop this draws (snd ?m) l evs (nextGeneration @ [fst ?m]) =
      Inr (ng, n')" and len: "length ng = populationSize"
    using Suc.hyps(1) [OF d Suc.prems(1) le] by blast
  have "offspring_loop this draws n l evs nextGeneration = Inr (ng, n')"
    using lt p1 p2 r by (subst offspring_loop.simps) simp
  then show ?case using len by blast
qed

lemma populationSize_pos: "0 < populationSize"
  by (simp add: populationSize_def)

lemma generation_loop_best:
  "length population = populationSize \<Longrightarrow> best_inv best \<Longrightarrow>
   \<exists>res b. generation_loop this draws n l generation population best = Inr res \<and>
     best_inv (res, b) \<and> at_least b (snd best) \<and>
     (generation < generations \<longrightarrow>
        (\<forall>ind \<in> set population. \<not> jgt (score (evaluateIndividual this ind l)) b))"
proof (induction "generations - generation" arbitrary: generation n population best)
  case 0
  then have "\<not> generation < generations" by simp
  then have "generation_loop this draws n l generation population best = Inr (fst best)"
    by (subst generation_loop.simps) simp
  moreover have "best_inv (fst best, snd best)" using "0.prems"(2) by simp
  ultimately show ?case using \<open>\<not> generation < generations\<close> at_least_refl by blast
next
  case (Suc d)
  then have lt: "generation < generations" and d: "d = generations - Suc generation"
    by simp_all
  let ?ev = "evaluate_population this l population best"
  let ?sorted = "js_sort by_fitness (fst ?ev)"
  from evaluate_population_best [OF Suc.prems(2), of this l population] have
    inv': "best_inv (snd ?ev)" and
    up: "at_least (snd (snd ?ev)) (snd best)" and
    dom: "\<forall>ind \<in> set population. \<not> jgt (score (evaluateIndividual this ind l)) (snd (snd ?ev))" and
    len: "length (fst ?ev) = length population"
    by blast+
  have slen: "length ?sorted = populationSize"
    using len Suc.prems(1) by (simp add: length_js_sort)
  then have ne: "?sorted \<noteq> []" using populationSize_pos by auto
  obtain elite where el: "elite_loop ?sorted 0 [] = Inr elite" and ellen: "length elite = eliteCount"
    using elite_loop_total [of ?sorted 0 "[]"] slen eliteCount_le by auto
  obtain ng n' where off: "offspring_loop this draws n l ?sorted elite = Inr (ng, n')"
    and nglen: "length ng = populationSize"
    using offspring_loop_total [OF ne, of elite this draws n l] ellen eliteCount_le by auto
  obtain res b where r: "generation_loop this draws n' l (Suc generation) ng (snd ?ev) = Inr res"
    and rinv: "best_inv (res, b)" and rup: "at_least b (snd (snd ?ev))"
    using Suc.hyps(1) [OF d nglen inv'] by blast
  have "generation_loop this draws n l generation population best = Inr res"
    using lt el off r by (subst generation_loop.simps) simp
  moreover have "at_least b (snd best)" using up rup by (rule at_least_trans)
  moreover have "\<forall>ind \<in> set population. \<not> jgt (score (evaluateIndividual this ind l)) b"
    using dom rup not_jgt_mono by blast
  ultimately show ?case using rinv by blast
qed

lemma population_loop_length:
  "length (fst (population_loop this draws n rs l i population)) =
     length population + (populationSize - i)"
proof (induction this draws n rs l i population rule: population_loop.induct)
  case (1 this draws n rs l i population)
  show ?case
  proof (cases "i < populationSize")
    case True
    obtain ind n' where c: "createRandomIndividual this draws n rs l = (ind, n')"
      by (cases "createRandomIndividual this draws n rs l")
    from True "1.IH" [OF True c [symmetric]] c show ?thesis
      by (subst population_loop.simps) simp
  next
    case False
    then show ?thesis by (subst population_loop.simps) simp
  qed
qed

lemma generations_pos: "0 < generations"
  by (simp add: generations_def)

lemma geneticAlgorithmOptimization_best:
  "\<exists>res. geneticAlgorithmOptimization this draws n rs l = Inr res \<and>
     (\<forall>ind \<in> set (fst (initializePopulation this draws n rs l)).
        \<not> jgt (score (evaluateIndividual this ind l))
           (case res of None \<Rightarrow> Fin 0 | Some sol \<Rightarrow> score sol))"
proof -
  obtain population n' where ip: "initializePopulation this draws n rs l = (population, n')"
    by (cases "initializePopulation this draws n rs l")
  have len: "length population = populationSize"
    using population_loop_length [of this draws n rs l 0 "[]"] ip
    by (simp add: initializePopulation_def)
  have inv: "best_inv (None, Fin 0)" by (simp add: best_inv_def)
  obtain res b where r: "generation_loop this draws n' l 0 population (None, Fin 0) = Inr res"
    and rinv: "best_inv (res, b)"
    and dom: "\<forall>ind \<in> set population. \<not> jgt (score (evaluateIndividual this ind l)) b"
    using generation_loop_best [OF len inv, of this draws n' l 0] generations_pos by auto
  have "b = (case res of None \<Rightarrow> Fin 0 | Some sol \<Rightarrow> score sol)"
    using rinv by (cases res) (simp_all add: best_inv_def)
  then show ?thesis using r dom ip by (simp add: geneticAlgorithmOptimization_def)
qed

section \<open>The claims\<close>

text \<open>
  Claim C1. In every rack set returned by the grid strategy \<open>placeRacks\<close>, any two
  different placed racks have a position each, do not overlap and keep the aisle
  clearance (the distance of their centres is not below \<open>minAisleWidth\<close> plus a quarter
  of the four side lengths), and no placed rack overlaps a fixed obstacle of the layout.
\<close>

theorem placeRacks_placement_ok:
  "placement_ok this l (racks (placeRacks this rs l))"
  using place_each_ok [of this l "[]" rs] placement_ok_Nil
  by (simp add: racks_placeRacks)

theorem placeRacks_placement_ok_witness:
  "racks (placeRacks enhanced_optimizer (generateRacks enhanced_optimizer two_standard) demo_layout) =
     [placed_rack enhanced_optimizer Standard 1 0 12, placed_rack enhanced_optimizer Standard 2 4 20] \<and>
   racks_compatible enhanced_optimizer
     (placed_rack enhanced_optimizer Standard 1 0 12) (placed_rack enhanced_optimizer Standard 2 4 20) \<and>
   clear_of_constraints demo_layout (placed_rack enhanced_optimizer Standard 1 0 12)"
proof -
  let ?a = "placed_rack enhanced_optimizer Standard 1 0 12"
  let ?b = "placed_rack enhanced_optimizer Standard 2 4 20"
  have ok: "placement_ok enhanced_optimizer demo_layout [?a, ?b]"
    using placeRacks_placement_ok
      [of enhanced_optimizer demo_layout "generateRacks enhanced_optimizer two_standard"]
    by (simp only: demo_two)
  have "(0::nat) < length [?a, ?b]" "(1::nat) < length [?a, ?b]" "(0::nat) \<noteq> 1"
    by simp_all
  with ok have "racks_compatible enhanced_optimizer ([?a, ?b] ! 0) ([?a, ?b] ! 1)"
    unfolding placement_ok_def by blast
  moreover from ok have "clear_of_constraints demo_layout ?a"
    unfolding placement_ok_def by simp
  ultimately show ?thesis using demo_two by simp
qed

text \<open>
  Claim C2, as the code has it. \<open>placeRacks\<close> returns exactly the racks it placed.
  Every returned rack has a position, and the returned racks are, up to their position,
  a subsequence of the requested ones, in the order of the request. The result for a
  request extended by one rack is the result for the request followed by that rack at
  the first cell, in scan order and within the attempt cap, that passes the validator
  against the racks returned so far, and followed by nothing if there is no such cell;
  later racks never change what was returned for earlier ones. So a rack that finds a
  cell is in the returned set with that cell as its position, and a rack that finds
  none is left out and changes nothing for the others. \<open>evaluateIndividual\<close> returns
  the racks of the individual that have a position.
\<close>

theorem placeRacks_returns_placed_only:
  "list_all (\<lambda>x. position x \<noteq> None) (racks (placeRacks this rs l)) \<and>
   subseq (map unplaced (racks (placeRacks this rs l))) (map unplaced rs) \<and>
   racks (placeRacks this [] l) = [] \<and>
   racks (placeRacks this (before @ [r]) l) =
     racks (placeRacks this before l) @
       (case first_valid_cell this l r (racks (placeRacks this before l)) of
          Some p \<Rightarrow> [r\<lparr>position := Some p\<rparr>] | None \<Rightarrow> []) \<and>
   prefix (racks (placeRacks this before l)) (racks (placeRacks this (before @ after) l)) \<and>
   (first_valid_cell this l r (racks (placeRacks this before l)) = Some p \<longrightarrow>
      r\<lparr>position := Some p\<rparr> \<in> set (racks (placeRacks this (before @ r # after) l))) \<and>
   (first_valid_cell this l r (racks (placeRacks this before l)) = None \<longrightarrow>
      racks (placeRacks this (before @ r # after) l) =
        racks (placeRacks this (before @ after) l)) \<and>
   racks (evaluateIndividual this individual l) =
     filter (\<lambda>rack. position rack \<noteq> None) individual"
proof -
  have "\<forall>x \<in> set (place_each this l rs []). position x \<noteq> None"
    using place_each_ok [of this l "[]" rs] placement_ok_Nil by simp
  then have 1: "list_all (\<lambda>x. position x \<noteq> None) (racks (placeRacks this rs l))"
    by (simp only: racks_placeRacks list_all_iff)
  have 2: "subseq (map unplaced (racks (placeRacks this rs l))) (map unplaced rs)"
    using place_each_subseq [of "[]" "[]" this l rs] by (simp add: racks_placeRacks)
  have 3: "racks (placeRacks this [] l) = []"
    by (simp add: racks_placeRacks)
  have 4: "racks (placeRacks this (before @ [r]) l) =
     racks (placeRacks this before l) @
       (case first_valid_cell this l r (racks (placeRacks this before l)) of
          Some p \<Rightarrow> [r\<lparr>position := Some p\<rparr>] | None \<Rightarrow> [])"
    by (simp only: racks_placeRacks place_each_snoc)
  have 5: "prefix (racks (placeRacks this before l)) (racks (placeRacks this (before @ after) l))"
    using place_each_prefix [of "place_each this l before []" this l after]
    by (simp only: racks_placeRacks place_each_append)
  have 6: "first_valid_cell this l r (racks (placeRacks this before l)) = Some p \<longrightarrow>
      r\<lparr>position := Some p\<rparr> \<in> set (racks (placeRacks this (before @ r # after) l))"
    using place_each_placed_member [of this l r before p after]
    by (simp only: racks_placeRacks) blast
  have 7: "first_valid_cell this l r (racks (placeRacks this before l)) = None \<longrightarrow>
      racks (placeRacks this (before @ r # after) l) =
        racks (placeRacks this (before @ after) l)"
    using place_each_unplaced_dropped [of this l r before after]
    by (simp only: racks_placeRacks) blast
  have 8: "racks (evaluateIndividual this individual l) =
      filter (\<lambda>rack. position rack \<noteq> None) individual"
    by (simp only: evaluateIndividual_def racks_solution_of)
  show ?thesis using 1 2 3 4 5 6 7 8 by blast
qed

theorem placeRacks_returns_placed_only_witness:
  "placed_rack enhanced_optimizer Standard 1 0 12 \<in>
     set (racks (placeRacks enhanced_optimizer
       [new_rack enhanced_optimizer Standard 1, new_rack enhanced_optimizer Standard 2]
       demo_layout)) \<and>
   racks (placeRacks basic_optimizer
       [new_rack basic_optimizer Standard 1, new_rack basic_optimizer Standard 2] tiny_layout) =
     racks (placeRacks basic_optimizer [new_rack basic_optimizer Standard 1] tiny_layout)"
proof -
  have "(new_rack enhanced_optimizer Standard 1)\<lparr>position := Some \<lparr>pos_x = 0, pos_y = 12\<rparr>\<rparr> \<in>
      set (racks (placeRacks enhanced_optimizer
        ([] @ new_rack enhanced_optimizer Standard 1 # [new_rack enhanced_optimizer Standard 2])
        demo_layout))"
    using first_cell_demo
      placeRacks_returns_placed_only [of enhanced_optimizer "[]" demo_layout "[]"
        "new_rack enhanced_optimizer Standard 1" "[new_rack enhanced_optimizer Standard 2]"
        "\<lparr>pos_x = 0, pos_y = 12\<rparr>" "[]"]
    by blast
  moreover have "racks (placeRacks basic_optimizer
        ([new_rack basic_optimizer Standard 1] @ new_rack basic_optimizer Standard 2 # [])
        tiny_layout) =
      racks (placeRacks basic_optimizer ([new_rack basic_optimizer Standard 1] @ []) tiny_layout)"
    using first_cell_tiny
      placeRacks_returns_placed_only [of basic_optimizer "[]" tiny_layout
        "[new_rack basic_optimizer Standard 1]" "new_rack basic_optimizer Standard 2" "[]"
        "\<lparr>pos_x = 0, pos_y = 0\<rparr>" "[]"]
    by blast
  ultimately show ?thesis by (simp add: placed_rack_def)
qed

text \<open>
  The claim as stated fails: of two standard racks requested for a store of 2 by 4
  metres, the second finds no position and is missing from the returned set.
\<close>

theorem placeRacks_drops_unplaced:
  "map rack_id (generateRacks basic_optimizer two_standard) = [''standard_1'', ''standard_2''] \<and>
   map rack_id (racks (placeRacks basic_optimizer (generateRacks basic_optimizer two_standard)
      tiny_layout)) = [''standard_1'']"
  by (simp add: tiny_two placed_rack_def) (simp add: gen_eval two_standard_def)

text \<open>
  Claim C4, as the code has it. \<open>hasAdequateAisles\<close> of \<open>RackOptimizer\<close> returns false
  exactly if some rack of the list that has a position lies with its centre closer to
  the candidate's centre than \<open>minAisleWidth + (rackA.width + rackA.height + rackB.width
  + rackB.height) / 4\<close>; a distance equal to that minimum passes. In
  \<open>ImageLayoutOptimizer\<close> the same holds with the distance taken between the two
  positions (the corners) in place of the centres.
\<close>

theorem hasAdequateAisles_iff:
  "((\<not> hasAdequateAisles this r p placed) \<longleftrightarrow>
      (\<exists>other \<in> set placed. \<exists>q. position other = Some q \<and>
         calculateDistance (rack_center r p) (rack_center other q)
           < minRequiredDistance this r other)) \<and>
   (position other = Some q \<and>
      calculateDistance (rack_center r p) (rack_center other q) = minRequiredDistance this r other
      \<longrightarrow> hasAdequateAisles this r p [other]) \<and>
   ((\<not> hasAdequateAisles_img this r p placed) \<longleftrightarrow>
      (\<exists>other \<in> set placed. \<exists>q. position other = Some q \<and>
         calculateDistance p q < minRequiredDistance this r other))"
  using hasAdequateAisles_False_iff [of this r p placed]
    hasAdequateAisles_img_False_iff [of this r p placed]
  by auto

theorem hasAdequateAisles_iff_witness:
  "hasAdequateAisles enhanced_optimizer (new_rack enhanced_optimizer Standard 2)
     \<lparr>pos_x = 0, pos_y = 17/2\<rparr> [placed_rack enhanced_optimizer Standard 1 0 0] \<and>
   \<not> hasAdequateAisles enhanced_optimizer (new_rack enhanced_optimizer Standard 2)
     \<lparr>pos_x = 0, pos_y = 8\<rparr> [placed_rack enhanced_optimizer Standard 1 0 0]"
proof -
  let ?r = "new_rack enhanced_optimizer Standard 2"
  let ?o = "placed_rack enhanced_optimizer Standard 1 0 0"
  have eq: "position ?o = Some \<lparr>pos_x = 0, pos_y = 0\<rparr> \<and>
      calculateDistance (rack_center ?r \<lparr>pos_x = 0, pos_y = 17/2\<rparr>)
        (rack_center ?o \<lparr>pos_x = 0, pos_y = 0\<rparr>) = minRequiredDistance enhanced_optimizer ?r ?o"
    by (simp add: placed_rack_def new_rack_def calculateDistance_def rack_center_def
        minRequiredDistance_def enhanced_optimizer_def sqrt_eq_iff_sq sqrt_times_eq_iff_sq)
  have lt: "\<exists>other \<in> set [?o]. \<exists>q. position other = Some q \<and>
      calculateDistance (rack_center ?r \<lparr>pos_x = 0, pos_y = 8\<rparr>) (rack_center other q)
        < minRequiredDistance enhanced_optimizer ?r other"
    by (simp add: placed_rack_def new_rack_def calculateDistance_def rack_center_def
        minRequiredDistance_def enhanced_optimizer_def sqrt_less_iff_sq sqrt_times_less_iff_sq)
  show ?thesis
    using eq lt
      hasAdequateAisles_iff [of enhanced_optimizer ?r "\<lparr>pos_x = 0, pos_y = 17/2\<rparr>" "[?o]"
        ?o "\<lparr>pos_x = 0, pos_y = 0\<rparr>"]
      hasAdequateAisles_iff [of enhanced_optimizer ?r "\<lparr>pos_x = 0, pos_y = 8\<rparr>" "[?o]"]
    by blast
qed

text \<open>
  The claim as stated fails for \<open>ImageLayoutOptimizer\<close>: with a standard rack at (0, 0),
  a high-density rack at (0, 8.5) is rejected although the centres are further apart
  than the required minimum.
\<close>

theorem hasAdequateAisles_img_not_centers:
  "\<not> hasAdequateAisles_img image_optimizer (new_rack image_optimizer HighDensity 2)
       \<lparr>pos_x = 0, pos_y = 17/2\<rparr> [placed_rack image_optimizer Standard 1 0 0] \<and>
   \<not> calculateDistance
        (rack_center (new_rack image_optimizer HighDensity 2) \<lparr>pos_x = 0, pos_y = 17/2\<rparr>)
        (rack_center (placed_rack image_optimizer Standard 1 0 0) \<lparr>pos_x = 0, pos_y = 0\<rparr>)
      < minRequiredDistance image_optimizer (new_rack image_optimizer HighDensity 2)
          (placed_rack image_optimizer Standard 1 0 0)"
  by (simp add: placed_rack_def new_rack_def calculateDistance_def rack_center_def
      minRequiredDistance_def image_optimizer_def sqrt_less_iff_sq sqrt_times_less_iff_sq
      power_divide)

text \<open>
  Claim C7, as the code has it. \<open>generateRacks\<close> emits the requested count of racks of
  each type, the types in the fixed order standard, high-density, freezer, bulk, each
  rack with the dimensions and capacity of its type and no position. One counter
  numbers the racks of all types: the n-th rack emitted has the id of its type name,
  an underscore and n, so the numbering does not restart with a new type.
\<close>

theorem generateRacks_numbering:
  "generateRacks this config =
     map2 (new_rack this) (requested_types config)
       [1 ..< Suc (length (requested_types config))]"
  by (rule generateRacks_eq)

text \<open>
  The claim as stated fails: the first high-density rack after one standard rack has
  the number 2.
\<close>

theorem generateRacks_shared_counter:
  "map rack_id (generateRacks enhanced_optimizer one_of_two_types) =
     [''standard_1'', ''high-density_2''] \<and>
   rack_id (generateRacks enhanced_optimizer one_of_two_types ! 1) \<noteq> ''high-density_1''"
  by (simp add: gen_eval one_of_two_types_def)

text \<open>
  Claim C10. Racks without a position impose no constraint: \<open>isValidPlacement\<close> returns
  the same for a rack list and for its sublist of the racks that have a position, and
  so do its overlap test against the other racks and \<open>hasAdequateAisles\<close>.
\<close>

theorem isValidPlacement_ignores_unplaced:
  "isValidPlacement this r p l L =
     isValidPlacement this r p l (filter (\<lambda>x. position x \<noteq> None) L) \<and>
   hits_rack r p L = hits_rack r p (filter (\<lambda>x. position x \<noteq> None) L) \<and>
   hasAdequateAisles this r p L =
     hasAdequateAisles this r p (filter (\<lambda>x. position x \<noteq> None) L)"
  by (simp only: isValidPlacement_def hits_rack_filter hasAdequateAisles_filter)


text \<open>
  Claim C3, as the code has it. \<open>placeRacks\<close>, the grid strategy of both copies of
  \<open>RackOptimizer\<close>, makes no random draw: the solution it returns (racks, positions,
  score and metrics) is determined by the layout and by the racks up to their position,
  so that the positions an earlier run left in the rack objects do not matter and two
  runs on the same counts and layout return the same solution. The
  \<open>gridBasedOptimization\<close> of \<open>ImageLayoutOptimizer\<close> draws its grid positions at
  random, and its result depends on the draws.
\<close>

theorem placeRacks_deterministic:
  "map unplaced rs = map unplaced rs' \<Longrightarrow> placeRacks this rs l = placeRacks this rs' l"
  by (simp only: placeRacks_def place_each_unplaced [of rs rs'])

theorem placeRacks_deterministic_witness:
  "placeRacks enhanced_optimizer
      [placed_rack enhanced_optimizer Standard 1 0 12, placed_rack enhanced_optimizer Standard 2 4 20]
      demo_layout =
   placeRacks enhanced_optimizer (generateRacks enhanced_optimizer two_standard) demo_layout"
proof -
  have "map unplaced
      [placed_rack enhanced_optimizer Standard 1 0 12, placed_rack enhanced_optimizer Standard 2 4 20] =
    map unplaced (generateRacks enhanced_optimizer two_standard)"
    by (simp add: gen_eval two_standard_def placed_rack_def unplaced_def)
  then show ?thesis by (rule placeRacks_deterministic)
qed

text \<open>
  The claim as stated fails for image-optimizer.js: in the open 40 by 30 store, one
  standard rack lands at (0, 0) when every draw is 0 and at (16, 8) when every draw is
  one half.
\<close>

theorem gridBasedOptimization_img_depends_on_draws:
  "racks (gridBasedOptimization_img image_optimizer zero_draws 0
      (generateRacks image_optimizer one_standard) open_layout) =
     [placed_rack image_optimizer Standard 1 0 0] \<and>
   racks (gridBasedOptimization_img image_optimizer half_draws 0
      (generateRacks image_optimizer one_standard) open_layout) =
     [placed_rack image_optimizer Standard 1 16 8] \<and>
   racks (gridBasedOptimization_img image_optimizer zero_draws 0
      (generateRacks image_optimizer one_standard) open_layout) \<noteq>
   racks (gridBasedOptimization_img image_optimizer half_draws 0
      (generateRacks image_optimizer one_standard) open_layout)"
  by (simp add: img_zero img_half placed_rack_def new_rack_def)

text \<open>
  Claim C9. \<open>mutate\<close> returns a list of the length of the individual in which every
  rack has the id, type, width, height and capacity it had; only positions change, and
  a rack without a position has none in the result.
\<close>

theorem mutate_frame:
  "length (fst (mutate this draws n individual l)) = length individual \<and>
   list_all2 same_rack_moved individual (fst (mutate this draws n individual l))"
  using mutate_loop_frame [of individual this draws n l 0]
  by (simp add: mutate_def list_all2_lengthD)

theorem mutate_frame_witness:
  "fst (mutate enhanced_optimizer zero_draws 0
      [placed_rack enhanced_optimizer Standard 1 0 12, new_rack enhanced_optimizer Standard 2]
      open_layout) =
   [placed_rack enhanced_optimizer Standard 1 0 (19/2), new_rack enhanced_optimizer Standard 2] \<and>
   same_rack_moved (placed_rack enhanced_optimizer Standard 1 0 12)
     (placed_rack enhanced_optimizer Standard 1 0 (19/2)) \<and>
   same_rack_moved (new_rack enhanced_optimizer Standard 2) (new_rack enhanced_optimizer Standard 2)"
proof -
  have "list_all2 same_rack_moved
      [placed_rack enhanced_optimizer Standard 1 0 12, new_rack enhanced_optimizer Standard 2]
      (fst (mutate enhanced_optimizer zero_draws 0
        [placed_rack enhanced_optimizer Standard 1 0 12, new_rack enhanced_optimizer Standard 2]
        open_layout))"
    using mutate_frame by (rule conjunct2)
  then have "list_all2 same_rack_moved
      [placed_rack enhanced_optimizer Standard 1 0 12, new_rack enhanced_optimizer Standard 2]
      [placed_rack enhanced_optimizer Standard 1 0 (19/2), new_rack enhanced_optimizer Standard 2]"
    by (simp only: mutate_demo)
  then show ?thesis using mutate_demo by simp
qed


text \<open>
  Claim C5, as the code has it. For every layout whose width or height is 0, the grid
  strategy of \<open>RackOptimizer\<close> (both copies, on the racks of \<open>generateRacks\<close>) places no
  rack and returns \<open>layoutEfficiency\<close> 0, a finite number and no exception, together
  with a total score, accessibility and workflow of 0, 0 racks, capacity 0 and average
  distances 0. The statement does not extend to \<open>areaUtilization\<close>.
\<close>

theorem zero_area_grid_scores:
  assumes "this = basic_optimizer \<or> this = enhanced_optimizer"
    and "l_width l = 0 \<or> l_height l = 0"
    and "s = placeRacks this (generateRacks this config) l"
  shows "racks s = [] \<and> score s = Fin 0 \<and>
    m_layoutEfficiency (metrics s) = Fin 0 \<and> m_accessibility (metrics s) = Fin 0 \<and>
    m_workflow (metrics s) = 0 \<and> totalRacks (metrics s) = 0 \<and> totalCapacity (metrics s) = 0 \<and>
    avgDistanceToEntrance (metrics s) = 0 \<and> avgDistanceToDock (metrics s) = 0"
proof -
  have "positive_specs this"
    using assms(1) positive_specs_basic positive_specs_enhanced by blast
  then have "s = solution_of this [] l"
    using assms(2,3) by (simp only: placeRacks_degenerate)
  then show ?thesis by (simp add: solution_of_Nil)
qed

theorem zero_area_grid_scores_witness:
  "score (optimizeLayout zero_width_config) = Fin 0 \<and>
   m_layoutEfficiency (metrics (optimizeLayout zero_width_config)) = Fin 0 \<and>
   totalRacks (metrics (optimizeLayout zero_width_config)) = 0"
proof -
  have "l_width (layout_of zero_width_config) = 0 \<or> l_height (layout_of zero_width_config) = 0"
    by (simp add: layout_of_def zero_width_config_def)
  then show ?thesis
    using zero_area_grid_scores [of basic_optimizer "layout_of zero_width_config"
        "optimizeLayout zero_width_config" zero_width_config]
    by (simp add: optimizeLayout_def)
qed

text \<open>
  The claim as stated fails: for a store of width 0 \<open>calculateMetrics\<close> divides the
  rack area 0 by the layout area 0, and \<open>areaUtilization\<close> is NaN.
\<close>

theorem zero_area_utilization_NaN:
  "areaUtilization (metrics (optimizeLayout zero_width_config)) = NaN"
proof -
  have "l_width (layout_of zero_width_config) = 0 \<or> l_height (layout_of zero_width_config) = 0"
    by (simp add: layout_of_def zero_width_config_def)
  then have "optimizeLayout zero_width_config = solution_of basic_optimizer [] (layout_of zero_width_config)"
    unfolding optimizeLayout_def using positive_specs_basic by (simp only: placeRacks_degenerate)
  then show ?thesis
    by (simp add: solution_of_Nil calculateLayoutArea_def layout_of_def zero_width_config_def
        jdiv_def)
qed





text \<open>
  Claim C8 fails on the code. The loops of \<open>geneticAlgorithmOptimization\<close> end after
  the fixed number of generations, but the best candidate is only recorded when its
  score is above the initial \<open>bestScore\<close> of 0. When no rack is requested every
  candidate scores 0, and the strategy returns \<open>null\<close> in place of a candidate, whatever
  the draws.
\<close>

theorem geneticAlgorithmOptimization_no_racks:
  "geneticAlgorithmOptimization this draws n [] l = Inr None"
  by (simp add: geneticAlgorithmOptimization_def initializePopulation_def population_loop_Nil
      generation_loop_Nil)

end
